theory Spec2Isabelle
  imports Main "HOL-Library.Sublist"
begin

section \<open>JavaScript strings and the two regular expressions of \<^verbatim>\<open>index.js\<close>\<close>

text \<open>
  A JavaScript string is modelled as a \<^typ>\<open>string\<close>: one \<^typ>\<open>char\<close> per character, code
  points 0 to 255. The white space that \<^verbatim>\<open>String.prototype.trim\<close> strips is, in that range,
  TAB, LF, VT, FF, CR, SPACE and NBSP.
\<close>

definition isWhiteSpace :: "char \<Rightarrow> bool" where
  "isWhiteSpace c =
     (c \<in> set [CHR 0x09, CHR 0x0A, CHR 0x0B, CHR 0x0C, CHR 0x0D, CHR 0x20, CHR 0xA0])"

definition trim :: "string \<Rightarrow> string" where
  "trim s = rev (dropWhile isWhiteSpace (rev (dropWhile isWhiteSpace s)))"

definition startsWith :: "string \<Rightarrow> string \<Rightarrow> bool" where
  "startsWith s p = prefix p s"

text \<open>\<^verbatim>\<open>s.split(c)\<close> for a one-character separator: never empty, \<^verbatim>\<open>''.split(c)\<close> is \<^verbatim>\<open>['']\<close>.\<close>

fun split :: "char \<Rightarrow> string \<Rightarrow> string list" where
  "split c [] = [[]]"
| "split c (x # xs) =
     (if x = c then [] # split c xs
      else (case split c xs of [] \<Rightarrow> [[x]] | piece # pieces \<Rightarrow> (x # piece) # pieces))"

text \<open>\<^verbatim>\<open>s.lastIndexOf(c)\<close>: the last position of \<open>c\<close>, or \<open>-1\<close>.\<close>

fun lastIndexOf :: "char \<Rightarrow> string \<Rightarrow> int" where
  "lastIndexOf c [] = - 1"
| "lastIndexOf c (x # xs) =
     (let r = lastIndexOf c xs
      in if 0 \<le> r then r + 1 else if x = c then 0 else - 1)"

text \<open>\<^verbatim>\<open>s.substring(a, b)\<close>: both ends clamped to \<open>0 .. length s\<close>, swapped when out of order.\<close>

definition substring :: "string \<Rightarrow> int \<Rightarrow> int \<Rightarrow> string" where
  "substring s a b =
     (let n = int (length s);
          a' = max 0 (min a n);
          b' = max 0 (min b n);
          lo = nat (min a' b');
          hi = nat (max a' b')
      in take (hi - lo) (drop lo s))"

text \<open>
  The regular expressions used by the program need single characters, \<^verbatim>\<open>.\<close> (any character
  but a line terminator), \<^verbatim>\<open>\d\<close> (an ASCII digit), a greedy star on one of these, and
  sequencing. \<open>rmatch r s\<close> lists what is left of \<open>s\<close> after each way of matching \<open>r\<close> at its
  start, in the order a backtracking matcher tries them (greedy first).
\<close>

datatype atom = Ch char | Dot | Digit

datatype re = Eps | One atom | Star atom | Seq re re

fun atom_ok :: "atom \<Rightarrow> char \<Rightarrow> bool" where
  "atom_ok (Ch a) c = (c = a)"
| "atom_ok Dot c = (c \<noteq> CHR 0x0A \<and> c \<noteq> CHR 0x0D)"
| "atom_ok Digit c = (c \<in> set ''0123456789'')"

fun rmatch :: "re \<Rightarrow> string \<Rightarrow> string list" where
  "rmatch Eps s = [s]"
| "rmatch (One a) [] = []"
| "rmatch (One a) (c # cs) = (if atom_ok a c then [cs] else [])"
| "rmatch (Star a) [] = [[]]"
| "rmatch (Star a) (c # cs) =
     (if atom_ok a c then rmatch (Star a) cs @ [c # cs] else [c # cs])"
| "rmatch (Seq r1 r2) s = concat (map (rmatch r2) (rmatch r1 s))"

text \<open>
  \<^verbatim>\<open>s.match(r)\<close> without the global flag: the leftmost position where \<open>r\<close> matches, and there
  the first match in backtracking order; the result is \<^verbatim>\<open>match[0]\<close>, the matched text.
  \<^verbatim>\<open>r.test(s)\<close> says whether there is one.
\<close>

fun re_exec :: "re \<Rightarrow> string \<Rightarrow> string option" where
  "re_exec r [] =
     (case rmatch r [] of [] \<Rightarrow> None | rest # _ \<Rightarrow> Some [])"
| "re_exec r (c # cs) =
     (case rmatch r (c # cs) of
        [] \<Rightarrow> re_exec r cs
      | rest # _ \<Rightarrow> Some (take (length (c # cs) - length rest) (c # cs)))"

definition re_test :: "re \<Rightarrow> string \<Rightarrow> bool" where
  "re_test r s = (re_exec r s \<noteq> None)"

definition lit :: "string \<Rightarrow> re" where
  "lit s = foldr (\<lambda>c r. Seq (One (Ch c)) r) s Eps"

definition plus :: "atom \<Rightarrow> re" where
  "plus a = Seq (One a) (Star a)"

text \<open>\<^verbatim>\<open>/L2TP-PSK.*ESTABLISHED/\<close>\<close>

definition ipsec_re :: re where
  "ipsec_re = Seq (lit ''L2TP-PSK'') (Seq (Star Dot) (lit ''ESTABLISHED''))"

text \<open>
  \<^verbatim>\<open>/via (\d+\.\d+\.\d+\.\d+)/\<close>. The group is everything after the four characters
  \<^verbatim>\<open>via \<close>, so \<^verbatim>\<open>match[1]\<close> is \<^verbatim>\<open>match[0]\<close> without them.
\<close>

definition via_re :: re where
  "via_re =
     Seq (lit ''via '')
       (Seq (plus Digit) (Seq (One (Ch CHR ''.''))
       (Seq (plus Digit) (Seq (One (Ch CHR ''.''))
       (Seq (plus Digit) (Seq (One (Ch CHR ''.'')) (plus Digit)))))))"

definition via_group :: "string \<Rightarrow> string option" where
  "via_group s = map_option (drop (length ''via '')) (re_exec via_re s)"

section \<open>The world outside the process\<close>

text \<open>
  Every call that leaves the process is a \<open>call\<close>. The environment \<open>env\<close> decides the outcome
  of each call from the history of calls so far: whether it throws (and with which message),
  the data it delivers (the chunks passed to a \<^verbatim>\<open>stdout\<close> listener, or the content of a file
  read), and how many milliseconds it takes. The \<open>world\<close> carries the clock that
  \<^verbatim>\<open>Date.now()\<close> reads and the trace of calls issued with their outcomes.
\<close>

datatype call =
    Exec string "string list"
  | WriteFile string string
  | ReadFile string
  | SetTimeout nat
  | Info string
  | Warning string
  | SetFailed string
  | ConsoleLog string

record outcome =
  thrown :: "string option"
  chunks :: "string list"
  took :: nat

record world =
  clock :: nat
  trace :: "(call \<times> outcome) list"

type_synonym env = "(call \<times> outcome) list \<Rightarrow> call \<Rightarrow> outcome"

datatype error = Error string

type_synonym 'a io = "world \<Rightarrow> (error + 'a) \<times> world"

definition quiet :: outcome where
  "quiet = \<lparr>thrown = None, chunks = [], took = 0\<rparr>"

definition perform :: "env \<Rightarrow> call \<Rightarrow> world \<Rightarrow> outcome \<times> world" where
  "perform env c w =
     (let r = env (trace w) c
      in (r, w\<lparr>clock := clock w + took r, trace := trace w @ [(c, r)]\<rparr>))"

definition resolved :: "'a \<Rightarrow> 'a io" where
  "resolved x w = (Inr x, w)"

text \<open>\<^verbatim>\<open>await m; k\<close>: a rejected promise propagates as the thrown error.\<close>

definition await :: "'a io \<Rightarrow> ('a \<Rightarrow> 'b io) \<Rightarrow> 'b io" where
  "await m k w = (case m w of (Inl e, w') \<Rightarrow> (Inl e, w') | (Inr x, w') \<Rightarrow> k x w')"

text \<open>
  \<^verbatim>\<open>exec(commandLine, args, {listeners: {stdout}})\<close> of \<^verbatim>\<open>@actions/exec\<close>: rejects when
  the command cannot be run or exits with a non-zero code; the result here is the list of
  chunks handed to the \<^verbatim>\<open>stdout\<close> listener.
\<close>

definition exec :: "env \<Rightarrow> string \<Rightarrow> string list \<Rightarrow> (string list) io" where
  "exec env commandLine args w =
     (case perform env (Exec commandLine args) w of
        (r, w') \<Rightarrow>
          (case thrown r of Some m \<Rightarrow> (Inl (Error m), w') | None \<Rightarrow> (Inr (chunks r), w')))"

definition writeFile :: "env \<Rightarrow> string \<Rightarrow> string \<Rightarrow> unit io" where
  "writeFile env path content w =
     (case perform env (WriteFile path content) w of
        (r, w') \<Rightarrow>
          (case thrown r of Some m \<Rightarrow> (Inl (Error m), w') | None \<Rightarrow> (Inr (), w')))"

definition readFile :: "env \<Rightarrow> string \<Rightarrow> string io" where
  "readFile env path w =
     (case perform env (ReadFile path) w of
        (r, w') \<Rightarrow>
          (case thrown r of Some m \<Rightarrow> (Inl (Error m), w') | None \<Rightarrow> (Inr (concat (chunks r)), w')))"

text \<open>
  \<^verbatim>\<open>await new Promise((resolve) => setTimeout(resolve, n))\<close>: never rejects; the clock moves
  by \<open>n\<close> plus whatever the timer is late by.
\<close>

definition sleep :: "env \<Rightarrow> nat \<Rightarrow> world \<Rightarrow> world" where
  "sleep env n w =
     (let r = env (trace w) (SetTimeout n)
      in w\<lparr>clock := clock w + n + took r, trace := trace w @ [(SetTimeout n, r)]\<rparr>)"

text \<open>\<^verbatim>\<open>core.info\<close>, \<^verbatim>\<open>core.warning\<close>, \<^verbatim>\<open>core.setFailed\<close>, \<^verbatim>\<open>console.log\<close>: recorded, never fail.\<close>

definition log :: "call \<Rightarrow> world \<Rightarrow> world" where
  "log c w = w\<lparr>trace := trace w @ [(c, quiet)]\<rparr>"

definition info :: "string \<Rightarrow> unit io" where
  "info msg w = (Inr (), log (Info msg) w)"

text \<open>What a computation added to the trace.\<close>

definition emitted :: "world \<Rightarrow> world \<Rightarrow> (call \<times> outcome) list" where
  "emitted w w' = drop (length (trace w)) (trace w')"

definition ok :: "call \<Rightarrow> (call \<times> outcome) \<Rightarrow> bool" where
  "ok c ev = (fst ev = c \<and> thrown (snd ev) = None)"

section \<open>\<^verbatim>\<open>createFileWithSudo\<close> and \<^verbatim>\<open>createSymlinkWithSudo\<close>\<close>

definition tempFile :: "string \<Rightarrow> string" where
  "tempFile path = ''/tmp/'' @ last (split CHR ''/'' path)"

definition dirname :: "string \<Rightarrow> string" where
  "dirname path = substring path 0 (lastIndexOf CHR ''/'' path)"

definition createFileWithSudo :: "env \<Rightarrow> string \<Rightarrow> string \<Rightarrow> unit io" where
  "createFileWithSudo env path content =
     await (writeFile env (tempFile path) content) (\<lambda>_.
     await (if dirname path \<noteq> []
            then await (exec env ''sudo'' [''mkdir'', ''-p'', dirname path]) (\<lambda>_. resolved ())
            else resolved ()) (\<lambda>_.
     await (exec env ''sudo'' [''mv'', tempFile path, path]) (\<lambda>_.
     await (exec env ''sudo'' [''chmod'', ''600'', path]) (\<lambda>_. resolved ()))))"

definition createSymlinkWithSudo :: "env \<Rightarrow> string \<Rightarrow> string \<Rightarrow> unit io" where
  "createSymlinkWithSudo env target source w =
     (case exec env ''sudo'' [''ln'', ''-fs'', source, target] w of
        (Inr _, w') \<Rightarrow> (Inr (), w')
      | (Inl (Error message), w') \<Rightarrow>
          (Inr (), log (Warning (''Failed to create symlink from '' @ source @ '' to '' @ target
                                  @ '': '' @ message)) w'))"

section \<open>\<^verbatim>\<open>createConfigFiles\<close>\<close>

definition ipsec_conf :: "string \<Rightarrow> string" where
  "ipsec_conf server =
      ''\<newline>'' @
      ''config setup\<newline>'' @
      ''\<newline>'' @
      ''conn L2TP-PSK\<newline>'' @
      ''    # Use IKEv1 for key exchange (IKEv2 is typically used in IPsec only setups, without L2TP)\<newline>'' @
      ''    keyexchange=ikev1\<newline>'' @
      ''\<newline>'' @
      ''    # Use these ciphers (see full list here https://wiki.strongswan.org/projects/strongswan/wiki/IKEv1CipherSuites):\<newline>'' @
      ''    # - aes128-sha256-modp2048: the most widely supported\<newline>'' @
      ''    # - aes256-sha256-modp2048: a stronger alternative, not as widely supported\<newline>'' @
      ''    # - aes256-sha512-modp4096: the strongest, but unlikely to be supported\<newline>'' @
      ''    ike=aes128-sha256-modp2048,aes256-sha256-modp2048,aes256-sha512-modp4096\<newline>'' @
      ''\<newline>'' @
      ''    # Start the connection when the IPsec service starts\<newline>'' @
      ''    auto=start\<newline>'' @
      ''\<newline>'' @
      ''    # Authenticate using a pre-shared key\<newline>'' @
      ''    authby=psk\<newline>'' @
      ''\<newline>'' @
      ''    # Use IPsec only as a transport mode and not a tunnel on its own\<newline>'' @
      ''    type=transport\<newline>'' @
      ''\<newline>'' @
      ''    # IP address of the VPN server\<newline>'' @
      ''    right='' @ server @ ''\<newline>''"

definition ipsec_secrets :: "string \<Rightarrow> string \<Rightarrow> string" where
  "ipsec_secrets server psk = server @ '' : PSK '' @ [CHR 0x22] @ psk @ [CHR 0x22]"

definition ppp_options :: "string \<Rightarrow> string \<Rightarrow> string" where
  "ppp_options username password =
      ''\<newline>'' @
      ''# L2TP cannot use EAP authentication so disable it\<newline>'' @
      ''refuse-eap\<newline>'' @
      ''# L2TP requires MS-CHAPv2 for authentication\<newline>'' @
      ''require-mschap-v2\<newline>'' @
      ''# Disable compression, since most of the traffic is already compressed\<newline>'' @
      ''# and compression can cause issues with some protocols\<newline>'' @
      ''noccp\<newline>'' @
      ''# Disable ppp authentication, since we are using L2TP/IPsec authentication\<newline>'' @
      ''noauth\<newline>'' @
      ''\<newline>'' @
      ''logfile /var/log/xl2tpd.log\<newline>'' @
      ''mtu 1410\<newline>'' @
      ''mru 1410\<newline>'' @
      ''defaultroute\<newline>'' @
      ''usepeerdns\<newline>'' @
      ''debug\<newline>'' @
      ''name '' @ username @ ''\<newline>'' @
      ''password '' @ password @ ''\<newline>''"

definition xl2tpd_conf :: "string \<Rightarrow> string" where
  "xl2tpd_conf server =
      ''\<newline>'' @
      ''[lac vpn]\<newline>'' @
      ''lns = '' @ server @ ''\<newline>'' @
      ''ppp debug = yes\<newline>'' @
      ''pppoptfile = /etc/ppp/options.l2tpd.client\<newline>'' @
      ''length bit = yes\<newline>'' @
      ''autodial = yes\<newline>''"

definition resolv_vpn_conf :: string where
  "resolv_vpn_conf =
      ''\<newline>'' @
      ''nameserver 1.1.1.1\<newline>'' @
      ''nameserver 8.8.8.8\<newline>''"

definition createConfigFiles :: "env \<Rightarrow> string \<Rightarrow> string \<Rightarrow> string \<Rightarrow> string \<Rightarrow> unit io" where
  "createConfigFiles env server username password psk =
     await (createFileWithSudo env ''/etc/ipsec.conf'' (ipsec_conf server)) (\<lambda>_.
     await (createFileWithSudo env ''/etc/ipsec.secrets'' (ipsec_secrets server psk)) (\<lambda>_.
     await (createFileWithSudo env ''/etc/ppp/options.l2tpd.client''
              (ppp_options username password)) (\<lambda>_.
     await (createFileWithSudo env ''/etc/xl2tpd/xl2tpd.conf'' (xl2tpd_conf server)) (\<lambda>_.
     await (createFileWithSudo env ''/etc/resolv-vpn.conf'' resolv_vpn_conf) (\<lambda>_.
     await (createSymlinkWithSudo env ''/etc/resolv.conf'' ''/etc/resolv-vpn.conf'') (\<lambda>_.
     info ''All configuration files created successfully.''))))))"

section \<open>\<^verbatim>\<open>waitForVpnConnection\<close>\<close>

text \<open>
  One pass through the \<^verbatim>\<open>try\<close> block of the loop body. The result is \<open>True\<close> when the block
  executes \<^verbatim>\<open>return true\<close>, and \<open>False\<close> when it falls through or an \<^verbatim>\<open>exec\<close> throws and
  the empty \<^verbatim>\<open>catch\<close> swallows the error.
\<close>

definition ipsecOk :: "string \<Rightarrow> bool" where
  "ipsecOk ipsecOutput = re_test ipsec_re ipsecOutput"

definition pppOk :: "string \<Rightarrow> bool" where
  "pppOk ifaceOutput =
     list_ex (\<lambda>line. startsWith (trim line) ''inet '') (split CHR ''\<newline>'' ifaceOutput)"

definition poll :: "env \<Rightarrow> world \<Rightarrow> bool \<times> world" where
  "poll env w =
     (case exec env ''sudo ipsec status'' [] w of
        (Inl _, w1) \<Rightarrow> (False, w1)
      | (Inr out1, w1) \<Rightarrow>
          (case exec env ''ip a s ppp0'' [] w1 of
             (Inl _, w2) \<Rightarrow> (False, w2)
           | (Inr out2, w2) \<Rightarrow> (ipsecOk (concat out1) \<and> pppOk (concat out2), w2)))"

definition timeout_message :: string where
  "timeout_message =
     ''VPN connection timeout: IPsec or PPP interface not ready. Content of /var/log/xl2tpd.log:\<newline>''"

text \<open>The \<^verbatim>\<open>throw\<close> after the loop: the log is read first, then the error is built.\<close>

definition throw_timeout :: "env \<Rightarrow> bool io" where
  "throw_timeout env w =
     (case readFile env ''/var/log/xl2tpd.log'' w of
        (Inl e, w') \<Rightarrow> (Inl e, w')
      | (Inr content, w') \<Rightarrow> (Inl (Error (timeout_message @ content)), w'))"

text \<open>
  The \<^verbatim>\<open>while\<close> loop. Nothing in the code bounds the number of iterations when the clock
  does not move, so a run that never returns is the value \<open>None\<close>.
\<close>

partial_function (option) wait_loop ::
  "env \<Rightarrow> nat \<Rightarrow> nat \<Rightarrow> nat \<Rightarrow> world \<Rightarrow> ((error + bool) \<times> world) option" where
  "wait_loop env start timeout interval w =
     (if clock w - start < timeout
      then (let (ready, w') = poll env w
            in if ready then Some (Inr True, w')
               else wait_loop env start timeout interval (sleep env interval w'))
      else Some (throw_timeout env w))"

declare wait_loop.simps [code]

definition waitForVpnConnection ::
  "env \<Rightarrow> nat \<Rightarrow> nat \<Rightarrow> world \<Rightarrow> ((error + bool) \<times> world) option" where
  "waitForVpnConnection env timeout interval w = wait_loop env (clock w) timeout interval w"

definition default_timeout :: nat where
  "default_timeout = 30000"

definition default_interval :: nat where
  "default_interval = 1000"

section \<open>\<^verbatim>\<open>startVPN\<close>\<close>

definition throw :: "error \<Rightarrow> 'a io" where
  "throw e w = (Inl e, w)"

text \<open>
  The \<^verbatim>\<open>stdout\<close> listener of \<^verbatim>\<open>ip route get\<close> runs once per chunk; a chunk that matches
  overwrites \<^verbatim>\<open>gateway\<close>, a chunk that does not leaves it alone.
\<close>

definition gateway_listener :: "string \<Rightarrow> string \<Rightarrow> string" where
  "gateway_listener gateway data =
     (case via_group data of Some m \<Rightarrow> m | None \<Rightarrow> gateway)"

text \<open>
  The routing phase of \<^verbatim>\<open>startVPN\<close>, from \<^verbatim>\<open>core.info('Settings routes...')\<close> to the end of
  the function (the specification's \<^verbatim>\<open>commitRoutes\<close>).
\<close>

definition commitRoutes :: "env \<Rightarrow> string \<Rightarrow> unit io" where
  "commitRoutes env server =
     await (info ''Settings routes...'') (\<lambda>_.
     await (exec env (''ip route get '' @ server) []) (\<lambda>out.
     let gateway = foldl gateway_listener [] out in
     if gateway = [] then throw (Error ''Could not determine gateway to VPN server'')
     else
       await (exec env (''ip route add '' @ server @ '' via '' @ gateway @ '' dev eth0'') []) (\<lambda>_.
       await (exec env ''ip route replace default dev ppp0'' []) (\<lambda>_. resolved ()))))"

definition launch :: "env \<Rightarrow> unit io" where
  "launch env =
     await (info ''Starting the VPN connection...'') (\<lambda>_.
     await (exec env ''sudo ipsec start'' []) (\<lambda>_.
     await (exec env ''sudo xl2tpd -C /tmp/l2tp-control'' []) (\<lambda>_.
     info ''Waiting for the VPN connection to start...'')))"

definition startVPN :: "env \<Rightarrow> string \<Rightarrow> world \<Rightarrow> ((error + unit) \<times> world) option" where
  "startVPN env server w =
     (case launch env w of
        (Inl e, w1) \<Rightarrow> Some (Inl e, w1)
      | (Inr _, w1) \<Rightarrow>
          (case waitForVpnConnection env default_timeout default_interval w1 of
             None \<Rightarrow> None
           | Some (Inl e, w2) \<Rightarrow> Some (Inl e, w2)
           | Some (Inr _, w2) \<Rightarrow>
               Some (await (info ''VPN connection established!'')
                       (\<lambda>_. commitRoutes env server) w2)))"

section \<open>\<^verbatim>\<open>installTools\<close> and \<^verbatim>\<open>run\<close>\<close>

definition installTools :: "env \<Rightarrow> unit io" where
  "installTools env =
     await (exec env ''sudo'' [''apt-get'', ''update'']) (\<lambda>_.
     await (exec env ''sudo'' [''apt-get'', ''install'', ''-y'', ''strongswan'', ''xl2tpd''])
       (\<lambda>_. resolved ()))"

text \<open>
  \<^verbatim>\<open>core.getInput(name, {required: true})\<close> of \<^verbatim>\<open>@actions/core\<close>: \<open>inputs name\<close> is the raw
  value handed to the action (empty when it was not supplied); a missing value throws, a
  present one is returned trimmed.
\<close>

definition getInput :: "(string \<Rightarrow> string) \<Rightarrow> string \<Rightarrow> error + string" where
  "getInput inputs name =
     (let val = inputs name
      in if val = [] then Inl (Error (''Input required and not supplied: '' @ name))
         else Inr (trim val))"

text \<open>The \<^verbatim>\<open>try\<close> block of \<^verbatim>\<open>run\<close>; \<open>payload\<close> is the text \<^verbatim>\<open>JSON.stringify\<close> returns.\<close>

definition run_try ::
  "env \<Rightarrow> (string \<Rightarrow> string) \<Rightarrow> string \<Rightarrow> world \<Rightarrow> ((error + unit) \<times> world) option" where
  "run_try env inputs payload w =
     (case getInput inputs ''server'' of Inl e \<Rightarrow> Some (Inl e, w) | Inr server \<Rightarrow>
     (case getInput inputs ''username'' of Inl e \<Rightarrow> Some (Inl e, w) | Inr username \<Rightarrow>
     (case getInput inputs ''password'' of Inl e \<Rightarrow> Some (Inl e, w) | Inr password \<Rightarrow>
     (case getInput inputs ''psk'' of Inl e \<Rightarrow> Some (Inl e, w) | Inr psk \<Rightarrow>
     (case await (info ''Installing necessary tools...'') (\<lambda>_.
           await (installTools env) (\<lambda>_.
           createConfigFiles env server username password psk)) w of
        (Inl e, w1) \<Rightarrow> Some (Inl e, w1)
      | (Inr _, w1) \<Rightarrow>
          (case startVPN env server w1 of
             None \<Rightarrow> None
           | Some (Inl e, w2) \<Rightarrow> Some (Inl e, w2)
           | Some (Inr _, w2) \<Rightarrow>
               Some (Inr (), log (ConsoleLog (''The event payload: '' @ payload)) w2)))))))"

definition run :: "env \<Rightarrow> (string \<Rightarrow> string) \<Rightarrow> string \<Rightarrow> world \<Rightarrow> world option" where
  "run env inputs payload w =
     (case run_try env inputs payload w of
        None \<Rightarrow> None
      | Some (Inl (Error message), w') \<Rightarrow> Some (log (SetFailed message) w')
      | Some (Inr _, w') \<Rightarrow> Some w')"

section \<open>Environments and inputs used in the examples\<close>

definition fine :: "string list \<Rightarrow> outcome" where
  "fine out = \<lparr>thrown = None, chunks = out, took = 0\<rparr>"

definition failing :: "string \<Rightarrow> outcome" where
  "failing m = \<lparr>thrown = Some m, chunks = [], took = 0\<rparr>"

definition w0 :: world where
  "w0 = \<lparr>clock = 0, trace = []\<rparr>"

text \<open>Every call succeeds at once and prints nothing.\<close>

definition env_silent :: env where
  "env_silent t c = fine []"

section \<open>Describing what a computation emits\<close>

text \<open>
  \<open>emits m Q\<close>: whenever \<open>m\<close> runs, the trace grows by some events \<open>evs\<close>, and the result
  \<open>r\<close> and these events satisfy \<open>Q r evs\<close>. \<open>emitsP\<close> is the same for a computation that
  may not return.
\<close>

definition emits :: "'a io \<Rightarrow> ((error + 'a) \<Rightarrow> (call \<times> outcome) list \<Rightarrow> bool) \<Rightarrow> bool" where
  "emits m Q = (\<forall>w r w'. m w = (r, w') \<longrightarrow> (\<exists>evs. trace w' = trace w @ evs \<and> Q r evs))"

definition emitsP ::
  "(world \<Rightarrow> ((error + 'a) \<times> world) option) \<Rightarrow>
   ((error + 'a) \<Rightarrow> (call \<times> outcome) list \<Rightarrow> bool) \<Rightarrow> bool" where
  "emitsP m Q = (\<forall>w r w'. m w = Some (r, w') \<longrightarrow> (\<exists>evs. trace w' = trace w @ evs \<and> Q r evs))"

text \<open>The result of a call that either throws or delivers \<open>x\<close>.\<close>

definition thrown_as :: "outcome \<Rightarrow> 'a \<Rightarrow> error + 'a" where
  "thrown_as r x = (case thrown r of Some m \<Rightarrow> Inl (Error m) | None \<Rightarrow> Inr x)"

text \<open>The calls of \<^verbatim>\<open>createFileWithSudo\<close>, in program order.\<close>

definition cfs_steps :: "string \<Rightarrow> string \<Rightarrow> call list" where
  "cfs_steps path content =
     WriteFile (tempFile path) content #
     (if dirname path = [] then [] else [Exec ''sudo'' [''mkdir'', ''-p'', dirname path]]) @
     [Exec ''sudo'' [''mv'', tempFile path, path], Exec ''sudo'' [''chmod'', ''600'', path]]"

text \<open>An established tunnel, as the two status queries print it (each in two chunks).\<close>

definition status_text :: "string list" where
  "status_text =
     [''Security Associations (1 up, 0 connecting):\<newline>    L2TP-PSK[1]: ESTAB'',
      ''LISHED 2 seconds ago, 10.0.0.5[10.0.0.5]...203.0.113.5[203.0.113.5]\<newline>'']"

definition iface_text :: "string list" where
  "iface_text =
     [''4: ppp0: <POINTOPOINT,MULTICAST,NOARP,UP,LOWER_UP> mtu 1410 qdisc fq_codel state UNKNOWN\<newline>'',
      ''    link/ppp\<newline>    inet 10.0.0.5/24 peer 10.0.0.1/32 scope global ppp0\<newline>'']"

definition env_ready :: env where
  "env_ready t c =
     (if c = Exec ''sudo ipsec status'' [] then fine status_text
      else if c = Exec ''ip a s ppp0'' [] then fine iface_text
      else fine [])"

text \<open>The very first status query fails; from then on the tunnel is up.\<close>

definition env_flaky :: env where
  "env_flaky t c =
     (if c = Exec ''sudo ipsec status'' [] \<and> t = [] then failing ''connecting to charon failed''
      else env_ready t c)"

text \<open>
  What one tick can observe: a status query and an interface query, issued one after the
  other, both completing, the first matching the IPsec pattern and the second having an
  \<^verbatim>\<open>inet \<close> line. \<open>saw_ready\<close> says that some tick of a trace observed this.
\<close>

definition ready_pair :: "(call \<times> outcome) \<Rightarrow> (call \<times> outcome) \<Rightarrow> bool" where
  "ready_pair a b =
     (ok (Exec ''sudo ipsec status'' []) a \<and> ok (Exec ''ip a s ppp0'' []) b \<and>
      ipsecOk (concat (chunks (snd a))) \<and> pppOk (concat (chunks (snd b))))"

fun saw_ready :: "(call \<times> outcome) list \<Rightarrow> bool" where
  "saw_ready (a # b # rest) = (ready_pair a b \<or> saw_ready (b # rest))"
| "saw_ready _ = False"

text \<open>The calls the poller makes.\<close>

fun poller_call :: "call \<Rightarrow> bool" where
  "poller_call (Exec cmd args) =
     ((cmd = ''sudo ipsec status'' \<or> cmd = ''ip a s ppp0'') \<and> args = [])"
| "poller_call (SetTimeout n) = True"
| "poller_call (ReadFile p) = (p = ''/var/log/xl2tpd.log'')"
| "poller_call _ = False"

text \<open>
  How a run of the loop from \<open>w\<close> to \<open>w'\<close> with events \<open>evs\<close> ends when it does not return
  \<^verbatim>\<open>true\<close>: the last call is the read of the log file, made when the elapsed time has
  reached the timeout; the error is the one thrown by the read, or else the timeout error
  with the content read.
\<close>

definition timed_out ::
  "nat \<Rightarrow> nat \<Rightarrow> nat \<Rightarrow> world \<Rightarrow> error + bool \<Rightarrow> world \<Rightarrow> (call \<times> outcome) list \<Rightarrow> bool" where
  "timed_out start timeout interval w r w' evs =
     (\<exists>pre q. evs = pre @ [(ReadFile ''/var/log/xl2tpd.log'', q)] \<and>
        r = Inl (Error (case thrown q of Some m \<Rightarrow> m
                        | None \<Rightarrow> timeout_message @ concat (chunks q))) \<and>
        \<not> (clock w' - took q - start < timeout) \<and>
        (\<not> (clock w - start < timeout) \<longrightarrow> clock w' = clock w + took q) \<and>
        (\<forall>d. clock w - start < timeout \<longrightarrow> (\<forall>ev\<in>set evs. took (snd ev) \<le> d) \<longrightarrow>
             clock w' < start + timeout + interval + 4 * d))"

text \<open>
  The tunnel never comes up: IPsec keeps connecting and \<^verbatim>\<open>ppp0\<close> does not exist, so the
  interface query exits with an error. The daemon has written its log.
\<close>

definition connecting_text :: "string list" where
  "connecting_text =
     [''Security Associations (0 up, 1 connecting):\<newline>    L2TP-PSK[1]: CONNECTING, 10.0.0.5[%any]...203.0.113.5[%any]\<newline>'']"

definition daemon_log :: string where
  "daemon_log = ''xl2tpd[2741]: Connecting to host 203.0.113.5, port 1701\<newline>''"

definition no_ppp0 :: outcome where
  "no_ppp0 = failing ''The process /usr/sbin/ip failed with exit code 1''"

definition env_down :: env where
  "env_down t c =
     (if c = Exec ''sudo ipsec status'' [] then fine connecting_text
      else if c = Exec ''ip a s ppp0'' [] then no_ppp0
      else if c = ReadFile ''/var/log/xl2tpd.log'' then fine [daemon_log]
      else fine [])"

text \<open>
  As \<open>env_down\<close>, but the status query hangs for 45 seconds before it answers, and the
  daemon never got far enough to create its log file.
\<close>

definition stalled :: outcome where
  "stalled = \<lparr>thrown = None, chunks = connecting_text, took = 45000\<rparr>"

definition no_log :: outcome where
  "no_log = failing ''ENOENT: no such file or directory, open /var/log/xl2tpd.log''"

definition env_stalled :: env where
  "env_stalled t c =
     (if c = Exec ''sudo ipsec status'' [] then stalled
      else if c = Exec ''ip a s ppp0'' [] then no_ppp0
      else if c = ReadFile ''/var/log/xl2tpd.log'' then no_log
      else fine [])"

text \<open>
  \<open>in_order cs r evs\<close>: the calls \<open>cs\<close> were issued in order, each after the previous one
  succeeded, up to the first one that threw; the result is that error, or success when all
  of \<open>cs\<close> succeeded.
\<close>

definition in_order :: "call list \<Rightarrow> error + 'a \<Rightarrow> (call \<times> outcome) list \<Rightarrow> bool" where
  "in_order cs r evs =
     (case r of
        Inr _ \<Rightarrow> list_all2 ok cs evs
      | Inl e \<Rightarrow>
          (\<exists>pre r' m. evs = pre @ [(cs ! length pre, r')] \<and> length pre < length cs \<and>
             list_all2 ok (take (length pre) cs) pre \<and> thrown r' = Some m \<and> e = Error m))"

text \<open>
  \<open>fatal P r evs\<close>: a call in \<open>P\<close> that threw is the last event, and its error is the result.
\<close>

definition fatal :: "(call \<Rightarrow> bool) \<Rightarrow> error + 'a \<Rightarrow> (call \<times> outcome) list \<Rightarrow> bool" where
  "fatal P r evs =
     (\<forall>pre c q post m. evs = pre @ (c, q) # post \<longrightarrow> P c \<longrightarrow> thrown q = Some m \<longrightarrow>
        post = [] \<and> r = Inl (Error m))"

text \<open>The steps of \<^verbatim>\<open>createFileWithSudo\<close>, whatever the path.\<close>

fun is_step :: "call \<Rightarrow> bool" where
  "is_step (WriteFile p c) = True"
| "is_step (Exec cmd args) =
     (cmd = ''sudo'' \<and>
      (case args of [] \<Rightarrow> False | a # _ \<Rightarrow> a = ''mkdir'' \<or> a = ''mv'' \<or> a = ''chmod''))"
| "is_step _ = False"

text \<open>
  The calls of the configuration phase (\<^verbatim>\<open>installTools\<close>, \<^verbatim>\<open>createConfigFiles\<close>) all go
  through \<^verbatim>\<open>sudo\<close> with an argument list; the calls of \<^verbatim>\<open>startVPN\<close> all pass a whole command
  line and no arguments.
\<close>

fun cfg_call :: "call \<Rightarrow> bool" where
  "cfg_call (Exec cmd args) = (cmd = ''sudo'' \<and> args \<noteq> [])"
| "cfg_call (WriteFile p c) = True"
| "cfg_call (Info msg) = True"
| "cfg_call (Warning msg) = True"
| "cfg_call _ = False"

fun vpn_call :: "call \<Rightarrow> bool" where
  "vpn_call (Exec cmd args) = (args = [])"
| "vpn_call (Info msg) = True"
| "vpn_call (SetTimeout n) = True"
| "vpn_call (ReadFile p) = True"
| "vpn_call _ = False"

fun route_call :: "call \<Rightarrow> bool" where
  "route_call (Exec cmd args) = prefix ''ip route '' cmd"
| "route_call _ = False"

definition ln_call :: call where
  "ln_call = Exec ''sudo'' [''ln'', ''-fs'', ''/etc/resolv-vpn.conf'', ''/etc/resolv.conf'']"

text \<open>The calls that write the five artifacts, in program order.\<close>

definition files_calls :: "string \<Rightarrow> string \<Rightarrow> string \<Rightarrow> string \<Rightarrow> call list" where
  "files_calls server username password psk =
     cfs_steps ''/etc/ipsec.conf'' (ipsec_conf server) @
     cfs_steps ''/etc/ipsec.secrets'' (ipsec_secrets server psk) @
     cfs_steps ''/etc/ppp/options.l2tpd.client'' (ppp_options username password) @
     cfs_steps ''/etc/xl2tpd/xl2tpd.conf'' (xl2tpd_conf server) @
     cfs_steps ''/etc/resolv-vpn.conf'' resolv_vpn_conf"

text \<open>
  What \<^verbatim>\<open>createConfigFiles\<close> emits: the calls \<open>cs\<close> that write the files, in order; when one
  of them throws, nothing more; otherwise the \<^verbatim>\<open>ln -fs\<close> call, a warning when that call
  threw, and the closing message.
\<close>

definition linked :: "(call \<times> outcome) list \<Rightarrow> bool" where
  "linked evs =
     (\<exists>q. evs = (ln_call, q) #
              (case thrown q of
                 None \<Rightarrow> []
               | Some m \<Rightarrow>
                   [(Warning (''Failed to create symlink from /etc/resolv-vpn.conf to /etc/resolv.conf: '' @ m),
                     quiet)]) @
              [(Info ''All configuration files created successfully.'', quiet)])"

definition configured :: "call list \<Rightarrow> error + unit \<Rightarrow> (call \<times> outcome) list \<Rightarrow> bool" where
  "configured cs r evs =
     ((\<exists>e. r = Inl e \<and> in_order cs r evs) \<or>
      (\<exists>written rest. r = Inr () \<and> evs = written @ rest \<and> list_all2 ok cs written \<and> linked rest))"

text \<open>What the routing phase emits.\<close>

definition routed :: "string \<Rightarrow> error + unit \<Rightarrow> (call \<times> outcome) list \<Rightarrow> bool" where
  "routed server r evs =
     (\<exists>q tail.
        evs = (Info ''Settings routes...'', quiet) #
              (Exec (''ip route get '' @ server) [], q) # tail \<and>
        (case thrown q of
           Some m \<Rightarrow> tail = [] \<and> r = Inl (Error m)
         | None \<Rightarrow>
             (let gateway = foldl gateway_listener [] (chunks q)
              in if gateway = []
                 then tail = [] \<and> r = Inl (Error ''Could not determine gateway to VPN server'')
                 else in_order
                        [Exec (''ip route add '' @ server @ '' via '' @ gateway @ '' dev eth0'') [],
                         Exec ''ip route replace default dev ppp0'' []] r tail)))"

text \<open>
  What \<^verbatim>\<open>startVPN\<close> emits: calls that leave the routes alone, and then, if the poller
  returned \<^verbatim>\<open>true\<close>, the routing phase.
\<close>

definition started :: "string \<Rightarrow> error + unit \<Rightarrow> (call \<times> outcome) list \<Rightarrow> bool" where
  "started server r evs =
     (\<exists>pre rest.
        evs = pre @ rest \<and> list_all (\<lambda>ev. vpn_call (fst ev) \<and> \<not> route_call (fst ev)) pre \<and>
        ((rest = [] \<and> (\<exists>e. r = Inl e)) \<or> routed server r rest))"

text \<open>
  The tunnel comes up at once and the server is reached through the gateway 10.1.0.1
  (\<open>env_routed\<close>), or lies on the local link, so that the route query names no gateway
  (\<open>env_onlink\<close>).
\<close>

definition via_text :: string where
  "via_text = ''203.0.113.5 via 10.1.0.1 dev eth0 src 10.1.0.4 uid 0 \<newline>    cache \<newline>''"

definition onlink_text :: string where
  "onlink_text = ''203.0.113.5 dev eth0 src 203.0.113.9 uid 0 \<newline>    cache \<newline>''"

definition env_routed :: env where
  "env_routed t c =
     (if c = Exec ''ip route get 203.0.113.5'' []
      then fine [via_text]
      else env_ready t c)"

definition env_onlink :: env where
  "env_onlink t c =
     (if c = Exec ''ip route get 203.0.113.5'' []
      then fine [onlink_text]
      else env_ready t c)"

definition w_established :: "(call \<times> outcome) list" where
  "w_established =
     [(Info ''Starting the VPN connection...'', quiet),
      (Exec ''sudo ipsec start'' [], fine []),
      (Exec ''sudo xl2tpd -C /tmp/l2tp-control'' [], fine []),
      (Info ''Waiting for the VPN connection to start...'', quiet),
      (Exec ''sudo ipsec status'' [], fine status_text),
      (Exec ''ip a s ppp0'' [], fine iface_text),
      (Info ''VPN connection established!'', quiet),
      (Info ''Settings routes...'', quiet)]"

definition w_routed :: world where
  "w_routed =
     \<lparr>clock = 0,
      trace = w_established @
        [(Exec ''ip route get 203.0.113.5'' [], fine [via_text]),
         (Exec ''ip route add 203.0.113.5 via 10.1.0.1 dev eth0'' [], fine []),
         (Exec ''ip route replace default dev ppp0'' [], fine [])]\<rparr>"

definition w_onlink :: world where
  "w_onlink =
     \<lparr>clock = 0,
      trace = w_established @ [(Exec ''ip route get 203.0.113.5'' [], fine [onlink_text])]\<rparr>"

text \<open>The calls of the configuration phase of \<^verbatim>\<open>run\<close> up to the last artifact.\<close>

definition cfg_calls :: "string \<Rightarrow> string \<Rightarrow> string \<Rightarrow> string \<Rightarrow> call list" where
  "cfg_calls server username password psk =
     [Info ''Installing necessary tools...''] @
     [Exec ''sudo'' [''apt-get'', ''update''],
      Exec ''sudo'' [''apt-get'', ''install'', ''-y'', ''strongswan'', ''xl2tpd'']] @
     files_calls server username password psk"

text \<open>
  What the \<^verbatim>\<open>try\<close> block of \<^verbatim>\<open>run\<close> emits: nothing when an input is missing; otherwise the
  configuration phase, then, if that succeeded, \<^verbatim>\<open>startVPN\<close>, then, if that succeeded, the
  payload message.
\<close>

definition tried ::
  "call list \<Rightarrow> string \<Rightarrow> string \<Rightarrow> error + unit \<Rightarrow> (call \<times> outcome) list \<Rightarrow> bool" where
  "tried cs server payload r evs =
     ((evs = [] \<and> (\<exists>e. r = Inl e)) \<or>
      (\<exists>e. r = Inl e \<and> configured cs (Inl e) evs) \<or>
      (\<exists>A B r2. configured cs (Inr ()) A \<and> started server r2 B \<and>
         (case r2 of
            Inl e \<Rightarrow> evs = A @ B \<and> r = Inl e
          | Inr _ \<Rightarrow> evs = A @ B @ [(ConsoleLog (''The event payload: '' @ payload), quiet)] \<and>
                       r = Inr ())))"

text \<open>The \<^verbatim>\<open>catch\<close> of \<^verbatim>\<open>run\<close>.\<close>

definition caught :: "error + unit \<Rightarrow> (call \<times> outcome) list" where
  "caught r = (case r of Inl (Error m) \<Rightarrow> [(SetFailed m, quiet)] | Inr _ \<Rightarrow> [])"

text \<open>
  Reading an \<^verbatim>\<open>ipsec.conf\<close>: the values assigned to \<open>key\<close>, one for every line that, after
  its indentation, starts with \<open>key=\<close>. A comment line starts with \<^verbatim>\<open>#\<close> and assigns nothing.
\<close>

definition conf_values :: "string \<Rightarrow> string \<Rightarrow> string list" where
  "conf_values key content =
     map (drop (length key + 1))
       (filter (prefix (key @ ''=''))
          (map (dropWhile (\<lambda>c. c = CHR '' '')) (split CHR ''\<newline>'' content)))"

text \<open>Moving the secrets artifact into place fails; everything else succeeds.\<close>

definition mv_denied :: outcome where
  "mv_denied = failing ''The process /usr/bin/sudo failed with exit code 1''"

definition env_readonly :: env where
  "env_readonly t c =
     (if c = Exec ''sudo'' [''mv'', ''/tmp/ipsec.secrets'', ''/etc/ipsec.secrets'']
      then mv_denied else fine [])"

definition inputs0 :: "string \<Rightarrow> string" where
  "inputs0 name =
     (if name = ''server'' then ''203.0.113.5''
      else if name = ''username'' then ''alice''
      else if name = ''password'' then ''wonderland''
      else if name = ''psk'' then ''shared''
      else [])"

text \<open>The IPsec daemon cannot be started; everything before that succeeds.\<close>

definition env_no_ipsec :: env where
  "env_no_ipsec t c =
     (if c = Exec ''sudo ipsec start'' []
      then failing ''The process /usr/bin/sudo failed with exit code 1'' else fine [])"

definition w_denied :: world where
  "w_denied =
     \<lparr>clock = 0,
      trace = [(WriteFile ''/tmp/ipsec.secrets'' ''s'', fine []),
               (Exec ''sudo'' [''mkdir'', ''-p'', ''/etc''], fine []),
               (Exec ''sudo'' [''mv'', ''/tmp/ipsec.secrets'', ''/etc/ipsec.secrets''], mv_denied)]\<rparr>"

definition w_failed :: world where
  "w_failed =
     \<lparr>clock = 0,
      trace =
        map (\<lambda>c. (c, fine []))
          (take 9 (cfg_calls ''203.0.113.5'' ''alice'' ''wonderland'' ''shared'')) @
        [(Exec ''sudo'' [''mv'', ''/tmp/ipsec.secrets'', ''/etc/ipsec.secrets''], mv_denied),
         (SetFailed ''The process /usr/bin/sudo failed with exit code 1'', quiet)]\<rparr>"

definition w_no_ipsec :: world where
  "w_no_ipsec =
     \<lparr>clock = 0,
      trace =
        map (\<lambda>c. (c, fine [])) (cfg_calls ''203.0.113.5'' ''alice'' ''wonderland'' ''shared'') @
        [(ln_call, fine []),
         (Info ''All configuration files created successfully.'', quiet),
         (Info ''Starting the VPN connection...'', quiet),
         (Exec ''sudo ipsec start'' [], failing ''The process /usr/bin/sudo failed with exit code 1''),
         (SetFailed ''The process /usr/bin/sudo failed with exit code 1'', quiet)]\<rparr>"

section \<open>Basic facts about the world\<close>

lemma await_cases:
  assumes "await m k w = (r, w'')"
  shows "(\<exists>e. m w = (Inl e, w'') \<and> r = Inl e) \<or> (\<exists>x w'. m w = (Inr x, w') \<and> k x w' = (r, w''))"
  using assms by (auto simp: await_def split: prod.splits sum.splits)

lemma emitted_same [simp]: "emitted w w = []"
  by (simp add: emitted_def)

text \<open>Unfolding these evaluates a computation on a concrete environment.\<close>

lemmas io_defs =
  await_def writeFile_def readFile_def exec_def perform_def resolved_def throw_def info_def
  log_def sleep_def quiet_def Let_def

lemmas example_defs = fine_def failing_def w0_def

lemma emits_exec:
  "emits (exec env c a) (\<lambda>r evs. \<exists>r'. evs = [(Exec c a, r')] \<and> r = thrown_as r' (chunks r'))"
  by (auto simp: emits_def exec_def perform_def Let_def thrown_as_def split: option.splits)

lemma emits_writeFile:
  "emits (writeFile env p c) (\<lambda>r evs. \<exists>r'. evs = [(WriteFile p c, r')] \<and> r = thrown_as r' ())"
  by (auto simp: emits_def writeFile_def perform_def Let_def thrown_as_def split: option.splits)

lemma emits_readFile:
  "emits (readFile env p)
     (\<lambda>r evs. \<exists>r'. evs = [(ReadFile p, r')] \<and> r = thrown_as r' (concat (chunks r')))"
  by (auto simp: emits_def readFile_def perform_def Let_def thrown_as_def split: option.splits)

lemma emits_info: "emits (info msg) (\<lambda>r evs. evs = [(Info msg, quiet)] \<and> r = Inr ())"
  by (auto simp: emits_def info_def log_def)

lemma emits_resolved: "emits (resolved x) (\<lambda>r evs. evs = [] \<and> r = Inr x)"
  by (auto simp: emits_def resolved_def)

lemma emits_throw: "emits (throw e) (\<lambda>r evs. evs = [] \<and> r = Inl e)"
  by (auto simp: emits_def throw_def)

lemma emits_await:
  assumes "emits m Q1" and "\<And>x. emits (k x) (Q2 x)"
  shows "emits (await m k)
           (\<lambda>r evs. (\<exists>e. r = Inl e \<and> Q1 (Inl e) evs) \<or>
                     (\<exists>x e1 e2. evs = e1 @ e2 \<and> Q1 (Inr x) e1 \<and> Q2 x r e2))"
  unfolding emits_def
proof (intro allI impI)
  fix w r w''
  assume run: "await m k w = (r, w'')"
  from await_cases [OF run]
  show "\<exists>evs. trace w'' = trace w @ evs \<and>
          ((\<exists>e. r = Inl e \<and> Q1 (Inl e) evs) \<or>
           (\<exists>x e1 e2. evs = e1 @ e2 \<and> Q1 (Inr x) e1 \<and> Q2 x r e2))"
  proof
    assume "\<exists>e. m w = (Inl e, w'') \<and> r = Inl e"
    then show ?thesis using assms(1) unfolding emits_def by blast
  next
    assume "\<exists>x w'. m w = (Inr x, w') \<and> k x w' = (r, w'')"
    then obtain x w' where m: "m w = (Inr x, w')" and k: "k x w' = (r, w'')" by blast
    from m assms(1) obtain e1 where e1: "trace w' = trace w @ e1" "Q1 (Inr x) e1"
      unfolding emits_def by blast
    from k assms(2) obtain e2 where e2: "trace w'' = trace w' @ e2" "Q2 x r e2"
      unfolding emits_def by blast
    from e1 e2 show ?thesis by auto
  qed
qed

lemma emits_weaken: "emits m Q \<Longrightarrow> (\<And>r evs. Q r evs \<Longrightarrow> Q' r evs) \<Longrightarrow> emits m Q'"
  unfolding emits_def by blast

lemma emits_if:
  "(b \<Longrightarrow> emits m Q) \<Longrightarrow> (\<not> b \<Longrightarrow> emits m' Q') \<Longrightarrow>
   emits (if b then m else m') (\<lambda>r evs. if b then Q r evs else Q' r evs)"
  by simp

lemma emitsD:
  "emits m Q \<Longrightarrow> m w = (r, w') \<Longrightarrow> trace w' = trace w @ emitted w w' \<and> Q r (emitted w w')"
  unfolding emits_def emitted_def by fastforce

lemma emitsPD:
  "emitsP m Q \<Longrightarrow> m w = Some (r, w') \<Longrightarrow>
   trace w' = trace w @ emitted w w' \<and> Q r (emitted w w')"
  unfolding emitsP_def emitted_def by fastforce

section \<open>\<^verbatim>\<open>createFileWithSudo\<close>: the order of its steps\<close>

lemma split_nonempty [simp]: "split c s \<noteq> []"
  by (induction s) (auto split: list.splits)

lemma split_absent: "c \<notin> set b \<Longrightarrow> split c b = [b]"
  by (induction b) auto

lemma last_split: "c \<notin> set b \<Longrightarrow> last (split c (d @ c # b)) = b"
proof (induction d)
  case Nil
  then show ?case by (simp add: split_absent)
next
  case (Cons x d)
  have two: "\<And>d. length (split c (d @ c # b)) \<ge> 2"
  proof -
    fix d show "length (split c (d @ c # b)) \<ge> 2"
    proof (induction d)
      case Nil
      have "split c b \<noteq> []" by simp
      then show ?case by (cases "split c b") auto
    next
      case (Cons y d)
      then show ?case by (auto split: list.splits)
    qed
  qed
  show ?case
  proof (cases "x = c")
    case True
    with Cons show ?thesis by simp
  next
    case False
    obtain piece pieces where sp: "split c (d @ c # b) = piece # pieces"
      by (cases "split c (d @ c # b)") auto
    with two [of d] have "pieces \<noteq> []" by auto
    with Cons sp False show ?thesis by simp
  qed
qed

lemma lastIndexOf_absent: "c \<notin> set b \<Longrightarrow> lastIndexOf c b = - 1"
  by (induction b) (auto simp: Let_def)

lemma lastIndexOf_last: "c \<notin> set b \<Longrightarrow> lastIndexOf c (d @ c # b) = int (length d)"
  by (induction d) (auto simp: Let_def lastIndexOf_absent)

lemma tempFile_basename: "CHR ''/'' \<notin> set b \<Longrightarrow> tempFile (d @ ''/'' @ b) = ''/tmp/'' @ b"
  using last_split [of "CHR ''/''" b d] by (simp add: tempFile_def)

lemma dirname_parent: "CHR ''/'' \<notin> set b \<Longrightarrow> dirname (d @ ''/'' @ b) = d"
  using lastIndexOf_last [of "CHR ''/''" b d] by (simp add: dirname_def substring_def Let_def)

lemma artifact_paths:
  "tempFile ''/etc/ipsec.conf'' = ''/tmp/ipsec.conf''"
  "dirname ''/etc/ipsec.conf'' = ''/etc''"
  "tempFile ''/etc/ipsec.secrets'' = ''/tmp/ipsec.secrets''"
  "dirname ''/etc/ipsec.secrets'' = ''/etc''"
  "tempFile ''/etc/ppp/options.l2tpd.client'' = ''/tmp/options.l2tpd.client''"
  "dirname ''/etc/ppp/options.l2tpd.client'' = ''/etc/ppp''"
  "tempFile ''/etc/xl2tpd/xl2tpd.conf'' = ''/tmp/xl2tpd.conf''"
  "dirname ''/etc/xl2tpd/xl2tpd.conf'' = ''/etc/xl2tpd''"
  "tempFile ''/etc/resolv-vpn.conf'' = ''/tmp/resolv-vpn.conf''"
  "dirname ''/etc/resolv-vpn.conf'' = ''/etc''"
  using tempFile_basename [of "''ipsec.conf''" "''/etc''"]
        dirname_parent [of "''ipsec.conf''" "''/etc''"]
        tempFile_basename [of "''ipsec.secrets''" "''/etc''"]
        dirname_parent [of "''ipsec.secrets''" "''/etc''"]
        tempFile_basename [of "''options.l2tpd.client''" "''/etc/ppp''"]
        dirname_parent [of "''options.l2tpd.client''" "''/etc/ppp''"]
        tempFile_basename [of "''xl2tpd.conf''" "''/etc/xl2tpd''"]
        dirname_parent [of "''xl2tpd.conf''" "''/etc/xl2tpd''"]
        tempFile_basename [of "''resolv-vpn.conf''" "''/etc''"]
        dirname_parent [of "''resolv-vpn.conf''" "''/etc''"]
  by simp_all

lemma emits_createFileWithSudo:
  "emits (createFileWithSudo env path content)
     (\<lambda>r evs. case r of
        Inr _ \<Rightarrow> list_all2 ok (cfs_steps path content) evs
      | Inl e \<Rightarrow>
          (\<exists>pre r' m. evs = pre @ [(cfs_steps path content ! length pre, r')] \<and>
             length pre < length (cfs_steps path content) \<and>
             list_all2 ok (take (length pre) (cfs_steps path content)) pre \<and>
             thrown r' = Some m \<and> e = Error m))"
  unfolding createFileWithSudo_def
  apply (rule emits_weaken)
   apply (rule emits_await [OF emits_writeFile])
   apply (rule emits_await
             [OF emits_if [OF emits_await [OF emits_exec emits_resolved] emits_resolved]])
   apply (rule emits_await [OF emits_exec])
   apply (rule emits_await [OF emits_exec emits_resolved])
  apply (auto simp: thrown_as_def ok_def cfs_steps_def split: option.splits sum.splits if_splits)
  done

text \<open>
  C10. Take a call of \<^verbatim>\<open>createFileWithSudo\<close> that succeeds, on a path \<open>d/b\<close> with a directory
  part \<open>d\<close> and base name \<open>b\<close>; every path the program passes is of this form
  (\<open>artifact_paths\<close>). The call has issued exactly four calls, each of which succeeded, in
  this order: the content is written to \<^verbatim>\<open>/tmp/b\<close> by a plain \<^verbatim>\<open>fs.writeFile\<close> (no mode
  given, so with the default permissions of the process); the directory \<open>d\<close> is created; the
  file is moved to its final path; and only then, as the last step, its mode is set to 600.
  So the content is at the staging path, and then at the final path, before the restrictive
  mode is in force.
\<close>

theorem createFileWithSudo_chmod_last:
  assumes "createFileWithSudo env path content w = (Inr u, w')"
    and "path = d @ ''/'' @ b" and "CHR ''/'' \<notin> set b" and "d \<noteq> []"
  shows "list_all2 ok
           [WriteFile (''/tmp/'' @ b) content,
            Exec ''sudo'' [''mkdir'', ''-p'', d],
            Exec ''sudo'' [''mv'', ''/tmp/'' @ b, path],
            Exec ''sudo'' [''chmod'', ''600'', path]]
           (emitted w w')"
proof -
  from emitsD [OF emits_createFileWithSudo assms(1)]
  have "list_all2 ok (cfs_steps path content) (emitted w w')" by simp
  moreover have "tempFile path = ''/tmp/'' @ b" and "dirname path = d"
    using assms(2,3) tempFile_basename [of b d] dirname_parent [of b d] by simp_all
  ultimately show ?thesis using assms(4) by (simp add: cfs_steps_def)
qed

theorem createFileWithSudo_chmod_last_witness:
  "createFileWithSudo env_silent ''/etc/ipsec.secrets'' ''s'' w0 =
     (Inr (),
      \<lparr>clock = 0,
       trace = [(WriteFile ''/tmp/ipsec.secrets'' ''s'', fine []),
                (Exec ''sudo'' [''mkdir'', ''-p'', ''/etc''], fine []),
                (Exec ''sudo'' [''mv'', ''/tmp/ipsec.secrets'', ''/etc/ipsec.secrets''], fine []),
                (Exec ''sudo'' [''chmod'', ''600'', ''/etc/ipsec.secrets''], fine [])]\<rparr>) \<and>
   ''/etc/ipsec.secrets'' = ''/etc'' @ ''/'' @ ''ipsec.secrets'' \<and>
   CHR ''/'' \<notin> set ''ipsec.secrets'' \<and>
   ''/etc'' \<noteq> [] \<and>
   list_all2 ok
     [WriteFile ''/tmp/ipsec.secrets'' ''s'',
      Exec ''sudo'' [''mkdir'', ''-p'', ''/etc''],
      Exec ''sudo'' [''mv'', ''/tmp/ipsec.secrets'', ''/etc/ipsec.secrets''],
      Exec ''sudo'' [''chmod'', ''600'', ''/etc/ipsec.secrets'']]
     (emitted w0
        \<lparr>clock = 0,
         trace = [(WriteFile ''/tmp/ipsec.secrets'' ''s'', fine []),
                  (Exec ''sudo'' [''mkdir'', ''-p'', ''/etc''], fine []),
                  (Exec ''sudo'' [''mv'', ''/tmp/ipsec.secrets'', ''/etc/ipsec.secrets''], fine []),
                  (Exec ''sudo'' [''chmod'', ''600'', ''/etc/ipsec.secrets''], fine [])]\<rparr>)"
proof -
  have run: "createFileWithSudo env_silent ''/etc/ipsec.secrets'' ''s'' w0 =
     (Inr (),
      \<lparr>clock = 0,
       trace = [(WriteFile ''/tmp/ipsec.secrets'' ''s'', fine []),
                (Exec ''sudo'' [''mkdir'', ''-p'', ''/etc''], fine []),
                (Exec ''sudo'' [''mv'', ''/tmp/ipsec.secrets'', ''/etc/ipsec.secrets''], fine []),
                (Exec ''sudo'' [''chmod'', ''600'', ''/etc/ipsec.secrets''], fine [])]\<rparr>)"
    by (simp add: createFileWithSudo_def io_defs example_defs env_silent_def artifact_paths)
  have shape: "''/etc/ipsec.secrets'' = ''/etc'' @ ''/'' @ ''ipsec.secrets''" by simp
  have base: "CHR ''/'' \<notin> set ''ipsec.secrets''" by simp
  have dir: "''/etc'' \<noteq> []" by simp
  show ?thesis
    using createFileWithSudo_chmod_last [OF run shape base dir] run by simp
qed

section \<open>The readiness poller\<close>

lemma ipsecOk_status_text: "ipsecOk (concat status_text)"
  by (simp add: status_text_def ipsecOk_def re_test_def ipsec_re_def lit_def)

lemma pppOk_iface_text: "pppOk (concat iface_text)"
  by (simp add: iface_text_def pppOk_def startsWith_def trim_def isWhiteSpace_def)

text \<open>
  C1. Take any tick of the loop, that is any state \<open>w\<close> at the head of the loop with the
  elapsed time still below the timeout. If in this tick the status query returns a text that
  matches \<^verbatim>\<open>/L2TP-PSK.*ESTABLISHED/\<close> and the interface query returns a text with a line
  that, trimmed, starts with \<^verbatim>\<open>inet \<close>, then the poller returns \<^verbatim>\<open>true\<close> in the state
  right after the second query: no sleep and no further call. Nothing is asked of earlier
  ticks; the history in \<open>w\<close> is arbitrary.
\<close>

theorem ready_returns_in_same_tick:
  assumes "clock w - start < timeout"
    and "exec env ''sudo ipsec status'' [] w = (Inr out1, w1)"
    and "exec env ''ip a s ppp0'' [] w1 = (Inr out2, w2)"
    and "ipsecOk (concat out1)" and "pppOk (concat out2)"
  shows "wait_loop env start timeout interval w = Some (Inr True, w2)"
  using assms by (subst wait_loop.simps) (simp add: poll_def)

theorem ready_returns_in_same_tick_witness:
  "wait_loop env_ready 0 default_timeout default_interval w0 =
     Some (Inr True,
           \<lparr>clock = 0,
            trace = [(Exec ''sudo ipsec status'' [], fine status_text),
                     (Exec ''ip a s ppp0'' [], fine iface_text)]\<rparr>)"
proof -
  have tick: "clock w0 - 0 < default_timeout"
    by (simp add: w0_def default_timeout_def)
  have q1: "exec env_ready ''sudo ipsec status'' [] w0 =
      (Inr status_text,
       \<lparr>clock = 0, trace = [(Exec ''sudo ipsec status'' [], fine status_text)]\<rparr>)"
    by (simp add: io_defs example_defs env_ready_def)
  have q2: "exec env_ready ''ip a s ppp0'' []
        \<lparr>clock = 0, trace = [(Exec ''sudo ipsec status'' [], fine status_text)]\<rparr> =
      (Inr iface_text,
       \<lparr>clock = 0, trace = [(Exec ''sudo ipsec status'' [], fine status_text),
                            (Exec ''ip a s ppp0'' [], fine iface_text)]\<rparr>)"
    by (simp add: io_defs example_defs env_ready_def)
  show ?thesis
    by (rule ready_returns_in_same_tick [OF tick q1 q2 ipsecOk_status_text pppOk_iface_text])
qed

lemma poll_shape:
  assumes "poll env w = (b, w')"
  shows "\<exists>evs. trace w' = trace w @ evs \<and>
           clock w' = clock w + sum_list (map (\<lambda>ev. took (snd ev)) evs) \<and>
           list_all (\<lambda>ev. poller_call (fst ev)) evs \<and> length evs \<le> 2 \<and>
           (if b then \<exists>x y. evs = [x, y] \<and> ready_pair x y else \<not> saw_ready evs)"
  using assms
  by (auto simp: poll_def exec_def perform_def Let_def ready_pair_def ok_def
      split: prod.splits sum.splits option.splits if_splits)

lemma throw_timeout_shape:
  assumes "throw_timeout env w = (r, w')"
  shows "\<exists>q. trace w' = trace w @ [(ReadFile ''/var/log/xl2tpd.log'', q)] \<and>
           clock w' = clock w + took q \<and>
           r = Inl (Error (case thrown q of Some m \<Rightarrow> m
                           | None \<Rightarrow> timeout_message @ concat (chunks q)))"
  using assms
  by (auto simp: throw_timeout_def readFile_def perform_def Let_def
      split: prod.splits sum.splits option.splits)

lemma sleep_shape:
  "\<exists>q. trace (sleep env n w) = trace w @ [(SetTimeout n, q)] \<and>
       clock (sleep env n w) = clock w + n + took q"
  by (simp add: sleep_def Let_def)

lemma saw_ready_append: "saw_ready ys \<Longrightarrow> saw_ready (xs @ ys)"
proof (induction xs)
  case Nil
  then show ?case by simp
next
  case (Cons x xs)
  then have "saw_ready (xs @ ys)" by simp
  then show ?case by (cases "xs @ ys") auto
qed

lemma took_sum_bound:
  "\<forall>ev\<in>set evs. took (snd ev) \<le> d \<Longrightarrow>
   sum_list (map (\<lambda>ev. took (snd ev)) evs) \<le> length evs * d"
  by (induction evs) auto

text \<open>
  The loop always returns when the interval is positive. It returns \<^verbatim>\<open>true\<close> only after a
  tick that observed readiness; otherwise it ends with the read of the log file, issued at
  the first loop head where the elapsed time has reached the timeout.
\<close>

lemma wait_loop_returns:
  assumes "0 < interval"
  shows "\<exists>r w' evs. wait_loop env start timeout interval w = Some (r, w') \<and>
           trace w' = trace w @ evs \<and> list_all (\<lambda>ev. poller_call (fst ev)) evs \<and>
           ((r = Inr True \<and> saw_ready evs) \<or> timed_out start timeout interval w r w' evs)"
proof (induction "start + timeout - clock w" arbitrary: w rule: less_induct)
  case less
  show ?case
  proof (cases "clock w - start < timeout")
    case False
    obtain r w' where tt: "throw_timeout env w = (r, w')"
      by (cases "throw_timeout env w")
    from throw_timeout_shape [OF tt] obtain q where
      q: "trace w' = trace w @ [(ReadFile ''/var/log/xl2tpd.log'', q)]"
         "clock w' = clock w + took q"
         "r = Inl (Error (case thrown q of Some m \<Rightarrow> m
                          | None \<Rightarrow> timeout_message @ concat (chunks q)))"
      by blast
    have run: "wait_loop env start timeout interval w = Some (r, w')"
      using False tt by (subst wait_loop.simps) simp
    have "timed_out start timeout interval w r w' [(ReadFile ''/var/log/xl2tpd.log'', q)]"
      unfolding timed_out_def using q False
      by (intro exI [of _ "[]"] exI [of _ q]) simp
    with run q(1) show ?thesis by (intro exI [of _ r] exI [of _ w']) auto
  next
    case True
    obtain b w1 where p: "poll env w = (b, w1)"
      by (cases "poll env w")
    from poll_shape [OF p] obtain e1 where
      e1: "trace w1 = trace w @ e1"
          "clock w1 = clock w + sum_list (map (\<lambda>ev. took (snd ev)) e1)"
          "list_all (\<lambda>ev. poller_call (fst ev)) e1" "length e1 \<le> 2"
          "if b then \<exists>x y. e1 = [x, y] \<and> ready_pair x y else \<not> saw_ready e1"
      by blast
    show ?thesis
    proof (cases b)
      case True
      have run: "wait_loop env start timeout interval w = Some (Inr True, w1)"
        using \<open>clock w - start < timeout\<close> p True by (subst wait_loop.simps) simp
      from e1(5) True have "saw_ready e1" by auto
      with run e1(1,3) show ?thesis by blast
    next
      case False
      let ?w2 = "sleep env interval w1"
      from sleep_shape [of env interval w1] obtain qs where
        sl: "trace ?w2 = trace w1 @ [(SetTimeout interval, qs)]"
            "clock ?w2 = clock w1 + interval + took qs"
        by blast
      have step: "wait_loop env start timeout interval w =
                  wait_loop env start timeout interval ?w2"
        using True p False by (subst wait_loop.simps) simp
      have dec: "start + timeout - clock ?w2 < start + timeout - clock w"
        using True assms e1(2) sl(2) by linarith
      from less [OF dec] obtain r w' e2 where
        ih: "wait_loop env start timeout interval ?w2 = Some (r, w')"
            "trace w' = trace ?w2 @ e2" "list_all (\<lambda>ev. poller_call (fst ev)) e2"
            "(r = Inr True \<and> saw_ready e2) \<or> timed_out start timeout interval ?w2 r w' e2"
        by blast
      let ?evs = "e1 @ (SetTimeout interval, qs) # e2"
      have run: "wait_loop env start timeout interval w = Some (r, w')"
        using step ih(1) by simp
      have tr: "trace w' = trace w @ ?evs"
        using ih(2) sl(1) e1(1) by simp
      have calls: "list_all (\<lambda>ev. poller_call (fst ev)) ?evs"
        using e1(3) ih(3) by simp
      from ih(4) have "(r = Inr True \<and> saw_ready ?evs) \<or> timed_out start timeout interval w r w' ?evs"
      proof
        assume "r = Inr True \<and> saw_ready e2"
        then have "r = Inr True \<and> saw_ready ?evs"
          using saw_ready_append [of e2 "e1 @ [(SetTimeout interval, qs)]"] by simp
        then show ?thesis ..
      next
        assume "timed_out start timeout interval ?w2 r w' e2"
        then obtain pre q where
          b: "e2 = pre @ [(ReadFile ''/var/log/xl2tpd.log'', q)]"
             "r = Inl (Error (case thrown q of Some m \<Rightarrow> m
                              | None \<Rightarrow> timeout_message @ concat (chunks q)))"
             "\<not> (clock w' - took q - start < timeout)"
             "\<not> (clock ?w2 - start < timeout) \<longrightarrow> clock w' = clock ?w2 + took q"
             "\<forall>d. clock ?w2 - start < timeout \<longrightarrow> (\<forall>ev\<in>set e2. took (snd ev) \<le> d) \<longrightarrow>
                    clock w' < start + timeout + interval + 4 * d"
          unfolding timed_out_def by blast
        have bound: "clock w' < start + timeout + interval + 4 * d"
          if all: "\<forall>ev\<in>set ?evs. took (snd ev) \<le> d" for d
        proof (cases "clock ?w2 - start < timeout")
          case True
          with b(5) all show ?thesis by simp
        next
          case False
          with b(4) have "clock w' = clock ?w2 + took q" by simp
          moreover have "sum_list (map (\<lambda>ev. took (snd ev)) e1) \<le> length e1 * d"
            using all by (intro took_sum_bound) simp
          moreover have "length e1 * d \<le> 2 * d"
            using e1(4) by simp
          moreover have "took qs \<le> d" and "took q \<le> d"
            using all b(1) by simp_all
          ultimately show ?thesis
            using \<open>clock w - start < timeout\<close> e1(2) sl(2) by linarith
        qed
        have ev: "?evs = (e1 @ (SetTimeout interval, qs) # pre) @
                          [(ReadFile ''/var/log/xl2tpd.log'', q)]"
          using b(1) by simp
        have "timed_out start timeout interval w r w' ?evs"
          unfolding timed_out_def
          using ev b(2,3) bound \<open>clock w - start < timeout\<close>
          by (intro exI [of _ "e1 @ (SetTimeout interval, qs) # pre"] exI [of _ q]) blast
        then show ?thesis ..
      qed
      with run tr calls show ?thesis by blast
    qed
  qed
qed

text \<open>
  C5. Take any tick in which the status query throws, or the status query succeeds and the
  interface query throws. The error is dropped: the loop goes on from the state after the
  failed query by sleeping \<open>interval\<close> and testing the clock again, with the same start
  time, timeout and interval, so the poller returns from this tick on exactly what it
  returns from the next loop head. With a positive interval it does return, and either it
  returns \<^verbatim>\<open>true\<close> because a later tick observed readiness, or it ends with the read of the
  log file once the elapsed time has reached the timeout.
\<close>

theorem query_failure_swallowed:
  assumes "clock w - start < timeout"
    and "exec env ''sudo ipsec status'' [] w = (Inl e, w1) \<or>
         (\<exists>out1 wq. exec env ''sudo ipsec status'' [] w = (Inr out1, wq) \<and>
                     exec env ''ip a s ppp0'' [] wq = (Inl e, w1))"
  shows "wait_loop env start timeout interval w =
           wait_loop env start timeout interval (sleep env interval w1) \<and>
         (0 < interval \<longrightarrow>
            (\<exists>r wf evs.
               wait_loop env start timeout interval w = Some (r, wf) \<and>
               trace wf = trace (sleep env interval w1) @ evs \<and>
               ((r = Inr True \<and> saw_ready evs) \<or>
                (\<exists>pre q. evs = pre @ [(ReadFile ''/var/log/xl2tpd.log'', q)] \<and>
                   \<not> (clock wf - took q - start < timeout)))))"
proof (intro conjI impI)
  show step: "wait_loop env start timeout interval w =
              wait_loop env start timeout interval (sleep env interval w1)"
    using assms by (subst wait_loop.simps) (auto simp: poll_def)
  assume "0 < interval"
  from wait_loop_returns [OF this, of env start timeout "sleep env interval w1"]
  obtain r wf evs where
    run: "wait_loop env start timeout interval (sleep env interval w1) = Some (r, wf)"
    and tr: "trace wf = trace (sleep env interval w1) @ evs"
    and post: "(r = Inr True \<and> saw_ready evs) \<or>
               timed_out start timeout interval (sleep env interval w1) r wf evs"
    by blast
  from post have "(r = Inr True \<and> saw_ready evs) \<or>
                (\<exists>pre q. evs = pre @ [(ReadFile ''/var/log/xl2tpd.log'', q)] \<and>
                   \<not> (clock wf - took q - start < timeout))"
    unfolding timed_out_def by blast
  with run tr step
  show "\<exists>r wf evs.
               wait_loop env start timeout interval w = Some (r, wf) \<and>
               trace wf = trace (sleep env interval w1) @ evs \<and>
               ((r = Inr True \<and> saw_ready evs) \<or>
                (\<exists>pre q. evs = pre @ [(ReadFile ''/var/log/xl2tpd.log'', q)] \<and>
                   \<not> (clock wf - took q - start < timeout)))"
    by (intro exI [of _ r] exI [of _ wf] exI [of _ evs]) simp
qed

theorem query_failure_swallowed_witness:
  "exec env_flaky ''sudo ipsec status'' [] w0 =
     (Inl (Error ''connecting to charon failed''),
      \<lparr>clock = 0,
       trace = [(Exec ''sudo ipsec status'' [], failing ''connecting to charon failed'')]\<rparr>)
   \<and> wait_loop env_flaky 0 default_timeout default_interval w0 =
       Some (Inr True,
             \<lparr>clock = 1000,
              trace = [(Exec ''sudo ipsec status'' [], failing ''connecting to charon failed''),
                       (SetTimeout 1000, fine []),
                       (Exec ''sudo ipsec status'' [], fine status_text),
                       (Exec ''ip a s ppp0'' [], fine iface_text)]\<rparr>)"
proof -
  let ?w1 = "\<lparr>clock = 0,
       trace = [(Exec ''sudo ipsec status'' [], failing ''connecting to charon failed'')]\<rparr>"
  have tick: "clock w0 - 0 < default_timeout"
    by (simp add: w0_def default_timeout_def)
  have q1: "exec env_flaky ''sudo ipsec status'' [] w0 =
              (Inl (Error ''connecting to charon failed''), ?w1)"
    by (simp add: io_defs example_defs env_flaky_def)
  have nap: "sleep env_flaky default_interval ?w1 =
      \<lparr>clock = 1000,
       trace = [(Exec ''sudo ipsec status'' [], failing ''connecting to charon failed''),
                (SetTimeout 1000, fine [])]\<rparr>"
    by (simp add: io_defs example_defs env_flaky_def env_ready_def default_interval_def)
  have next_tick: "wait_loop env_flaky 0 default_timeout default_interval
      \<lparr>clock = 1000,
       trace = [(Exec ''sudo ipsec status'' [], failing ''connecting to charon failed''),
                (SetTimeout 1000, fine [])]\<rparr> =
       Some (Inr True,
             \<lparr>clock = 1000,
              trace = [(Exec ''sudo ipsec status'' [], failing ''connecting to charon failed''),
                       (SetTimeout 1000, fine []),
                       (Exec ''sudo ipsec status'' [], fine status_text),
                       (Exec ''ip a s ppp0'' [], fine iface_text)]\<rparr>)"
    using ipsecOk_status_text pppOk_iface_text
    by (subst wait_loop.simps)
       (simp add: poll_def io_defs example_defs env_flaky_def env_ready_def default_timeout_def)
  from query_failure_swallowed [OF tick, of env_flaky _ ?w1 default_interval] q1
  have "wait_loop env_flaky 0 default_timeout default_interval w0 =
        wait_loop env_flaky 0 default_timeout default_interval
          (sleep env_flaky default_interval ?w1)"
    by simp
  with nap next_tick q1 show ?thesis by simp
qed

lemma not_established: "\<not> ipsecOk (concat connecting_text)"
  by (simp add: connecting_text_def ipsecOk_def re_test_def ipsec_re_def lit_def)

text \<open>
  C2, as the code has it. With a positive interval the poller always returns. In a run in
  which no tick observed both readiness conditions it does not return \<^verbatim>\<open>true\<close>: it throws
  an error, and its last call is the read of \<^verbatim>\<open>/var/log/xl2tpd.log\<close>, made at the first loop
  head at which the elapsed time has reached the timeout. When no call of the run takes longer
  than \<open>d\<close> milliseconds, the poller is done less than \<open>interval + 4 * d\<close> after the timeout.
  When the read succeeds, the error thrown is the timeout error, whose message is the fixed
  text followed by exactly the content read; when the read fails, the error thrown is the
  error of the read.
\<close>

theorem timeout_carries_log:
  assumes "0 < interval"
  shows "\<exists>r w'. waitForVpnConnection env timeout interval w = Some (r, w') \<and>
           (\<not> saw_ready (emitted w w') \<longrightarrow>
             (\<exists>e. r = Inl e) \<and>
             (\<exists>pre q. emitted w w' = pre @ [(ReadFile ''/var/log/xl2tpd.log'', q)] \<and>
                timeout \<le> clock w' - took q - clock w \<and>
                (\<forall>d. (\<forall>ev\<in>set (emitted w w'). took (snd ev) \<le> d) \<longrightarrow>
                     clock w' < clock w + timeout + interval + 4 * d) \<and>
                (thrown q = None \<longrightarrow>
                   r = Inl (Error (timeout_message @ concat (chunks q)))) \<and>
                (\<forall>m. thrown q = Some m \<longrightarrow> r = Inl (Error m))))"
proof -
  from wait_loop_returns [OF assms, of env "clock w" timeout w] obtain r w' evs where
    run: "wait_loop env (clock w) timeout interval w = Some (r, w')"
    and tr: "trace w' = trace w @ evs"
    and post: "(r = Inr True \<and> saw_ready evs) \<or> timed_out (clock w) timeout interval w r w' evs"
    by blast
  have em: "emitted w w' = evs"
    using tr by (simp add: emitted_def)
  have late: "(\<exists>e. r = Inl e) \<and>
          (\<exists>pre q. evs = pre @ [(ReadFile ''/var/log/xl2tpd.log'', q)] \<and>
          timeout \<le> clock w' - took q - clock w \<and>
          (\<forall>d. (\<forall>ev\<in>set evs. took (snd ev) \<le> d) \<longrightarrow>
               clock w' < clock w + timeout + interval + 4 * d) \<and>
          (thrown q = None \<longrightarrow> r = Inl (Error (timeout_message @ concat (chunks q)))) \<and>
          (\<forall>m. thrown q = Some m \<longrightarrow> r = Inl (Error m)))"
    if "\<not> saw_ready evs"
  proof -
    from post that have "timed_out (clock w) timeout interval w r w' evs" by blast
    then obtain pre q where
      b: "evs = pre @ [(ReadFile ''/var/log/xl2tpd.log'', q)]"
         "r = Inl (Error (case thrown q of Some m \<Rightarrow> m
                          | None \<Rightarrow> timeout_message @ concat (chunks q)))"
         "\<not> (clock w' - took q - clock w < timeout)"
         "\<not> (clock w - clock w < timeout) \<longrightarrow> clock w' = clock w + took q"
         "\<forall>d. clock w - clock w < timeout \<longrightarrow> (\<forall>ev\<in>set evs. took (snd ev) \<le> d) \<longrightarrow>
                clock w' < clock w + timeout + interval + 4 * d"
      unfolding timed_out_def by blast
    have bound: "clock w' < clock w + timeout + interval + 4 * d"
      if all: "\<forall>ev\<in>set evs. took (snd ev) \<le> d" for d
    proof (cases "0 < timeout")
      case True
      with b(5) all show ?thesis by simp
    next
      case False
      with b(4) have "clock w' = clock w + took q" by simp
      moreover have "took q \<le> d" using all b(1) by simp
      ultimately show ?thesis using assms by linarith
    qed
    from b(1,2,3) bound
    have "\<exists>pre q. evs = pre @ [(ReadFile ''/var/log/xl2tpd.log'', q)] \<and>
          timeout \<le> clock w' - took q - clock w \<and>
          (\<forall>d. (\<forall>ev\<in>set evs. took (snd ev) \<le> d) \<longrightarrow>
               clock w' < clock w + timeout + interval + 4 * d) \<and>
          (thrown q = None \<longrightarrow> r = Inl (Error (timeout_message @ concat (chunks q)))) \<and>
          (\<forall>m. thrown q = Some m \<longrightarrow> r = Inl (Error m))"
      by (intro exI [of _ pre] exI [of _ q]) auto
    moreover from b(2) have "\<exists>e. r = Inl e" by simp
    ultimately show ?thesis by (rule conjI [rotated])
  qed
  have concl: "\<not> saw_ready (emitted w w') \<longrightarrow>
      (\<exists>e. r = Inl e) \<and>
      (\<exists>pre q. emitted w w' = pre @ [(ReadFile ''/var/log/xl2tpd.log'', q)] \<and>
         timeout \<le> clock w' - took q - clock w \<and>
         (\<forall>d. (\<forall>ev\<in>set (emitted w w'). took (snd ev) \<le> d) \<longrightarrow>
              clock w' < clock w + timeout + interval + 4 * d) \<and>
         (thrown q = None \<longrightarrow> r = Inl (Error (timeout_message @ concat (chunks q)))) \<and>
         (\<forall>m. thrown q = Some m \<longrightarrow> r = Inl (Error m)))"
    unfolding em using late by (rule impI)
  show ?thesis
    unfolding waitForVpnConnection_def
    by (rule exI [of _ r], rule exI [of _ w'], rule conjI [OF run concl])
qed

lemma env_down_run:
  "waitForVpnConnection env_down 2000 1000 w0 =
     Some (Inl (Error (timeout_message @ daemon_log)),
           \<lparr>clock = 2000,
            trace = [(Exec ''sudo ipsec status'' [], fine connecting_text),
                     (Exec ''ip a s ppp0'' [], no_ppp0),
                     (SetTimeout 1000, fine []),
                     (Exec ''sudo ipsec status'' [], fine connecting_text),
                     (Exec ''ip a s ppp0'' [], no_ppp0),
                     (SetTimeout 1000, fine []),
                     (ReadFile ''/var/log/xl2tpd.log'', fine [daemon_log])]\<rparr>)"
  by (simp add: waitForVpnConnection_def wait_loop.simps poll_def throw_timeout_def io_defs
      example_defs env_down_def no_ppp0_def)

theorem timeout_carries_log_witness:
  "(0::nat) < 1000 \<and>
   waitForVpnConnection env_down 2000 1000 w0 =
     Some (Inl (Error (timeout_message @ daemon_log)),
           \<lparr>clock = 2000,
            trace = [(Exec ''sudo ipsec status'' [], fine connecting_text),
                     (Exec ''ip a s ppp0'' [], no_ppp0),
                     (SetTimeout 1000, fine []),
                     (Exec ''sudo ipsec status'' [], fine connecting_text),
                     (Exec ''ip a s ppp0'' [], no_ppp0),
                     (SetTimeout 1000, fine []),
                     (ReadFile ''/var/log/xl2tpd.log'', fine [daemon_log])]\<rparr>) \<and>
   \<not> saw_ready
        [(Exec ''sudo ipsec status'' [], fine connecting_text),
         (Exec ''ip a s ppp0'' [], no_ppp0),
         (SetTimeout 1000, fine []),
         (Exec ''sudo ipsec status'' [], fine connecting_text),
         (Exec ''ip a s ppp0'' [], no_ppp0),
         (SetTimeout 1000, fine []),
         (ReadFile ''/var/log/xl2tpd.log'', fine [daemon_log])]"
proof -
  have pos: "(0::nat) < 1000" by simp
  have quiet_run: "\<not> saw_ready
        [(Exec ''sudo ipsec status'' [], fine connecting_text),
         (Exec ''ip a s ppp0'' [], no_ppp0),
         (SetTimeout 1000, fine []),
         (Exec ''sudo ipsec status'' [], fine connecting_text),
         (Exec ''ip a s ppp0'' [], no_ppp0),
         (SetTimeout 1000, fine []),
         (ReadFile ''/var/log/xl2tpd.log'', fine [daemon_log])]"
    by (simp add: ready_pair_def ok_def no_ppp0_def example_defs)
  from timeout_carries_log [OF pos, of env_down 2000 w0] env_down_run quiet_run
  show ?thesis by simp
qed

theorem timeout_masked_and_late:
  "waitForVpnConnection env_stalled default_timeout default_interval w0 =
     Some (Inl (Error ''ENOENT: no such file or directory, open /var/log/xl2tpd.log''),
           \<lparr>clock = 46000,
            trace = [(Exec ''sudo ipsec status'' [], stalled),
                     (Exec ''ip a s ppp0'' [], no_ppp0),
                     (SetTimeout 1000, fine []),
                     (ReadFile ''/var/log/xl2tpd.log'', no_log)]\<rparr>) \<and>
   \<not> saw_ready
        [(Exec ''sudo ipsec status'' [], stalled),
         (Exec ''ip a s ppp0'' [], no_ppp0),
         (SetTimeout 1000, fine []),
         (ReadFile ''/var/log/xl2tpd.log'', no_log)] \<and>
   \<not> prefix timeout_message ''ENOENT: no such file or directory, open /var/log/xl2tpd.log'' \<and>
   \<not> (46000 < clock w0 + default_timeout + default_interval)"
  by (simp add: waitForVpnConnection_def wait_loop.simps poll_def throw_timeout_def io_defs
      example_defs env_stalled_def no_ppp0_def no_log_def stalled_def default_timeout_def
      default_interval_def ready_pair_def ok_def timeout_message_def)

section \<open>Straight-line sequences of calls\<close>

lemma in_order_exec: "emits (exec env c a) (in_order [Exec c a])"
  by (rule emits_weaken [OF emits_exec])
     (auto simp: in_order_def thrown_as_def ok_def split: option.splits sum.splits)

lemma in_order_writeFile: "emits (writeFile env p c) (in_order [WriteFile p c])"
  by (rule emits_weaken [OF emits_writeFile])
     (auto simp: in_order_def thrown_as_def ok_def split: option.splits sum.splits)

lemma in_order_info: "emits (info msg) (in_order [Info msg])"
  by (rule emits_weaken [OF emits_info]) (auto simp: in_order_def ok_def quiet_def)

lemma in_order_resolved: "emits (resolved x) (in_order [])"
  by (rule emits_weaken [OF emits_resolved]) (auto simp: in_order_def)

lemma in_order_append:
  assumes "in_order cs1 (Inr x) e1" and "in_order cs2 r e2"
  shows "in_order (cs1 @ cs2) r (e1 @ e2)"
proof (cases r)
  case (Inr y)
  with assms show ?thesis
    by (auto simp: in_order_def intro: list_all2_appendI)
next
  case (Inl e)
  from assms(1) have all1: "list_all2 ok cs1 e1"
    by (simp add: in_order_def)
  then have len: "length e1 = length cs1"
    by (simp add: list_all2_lengthD)
  from assms(2) Inl obtain pre r' m where
    p: "e2 = pre @ [(cs2 ! length pre, r')]" "length pre < length cs2"
       "list_all2 ok (take (length pre) cs2) pre" "thrown r' = Some m" "e = Error m"
    by (auto simp: in_order_def)
  have "e1 @ e2 = (e1 @ pre) @ [((cs1 @ cs2) ! length (e1 @ pre), r')]"
    using p(1) len by (simp add: nth_append)
  moreover have "length (e1 @ pre) < length (cs1 @ cs2)"
    using p(2) len by simp
  moreover have "list_all2 ok (take (length (e1 @ pre)) (cs1 @ cs2)) (e1 @ pre)"
    using all1 p(3) len by (simp add: list_all2_appendI)
  ultimately show ?thesis
    using Inl p(4,5) unfolding in_order_def by (simp only: sum.case) blast
qed

lemma in_order_left:
  assumes "in_order cs1 (Inl e) evs"
  shows "in_order (cs1 @ cs2) (Inl e) evs"
proof -
  from assms obtain pre r' m where
    p: "evs = pre @ [(cs1 ! length pre, r')]" "length pre < length cs1"
       "list_all2 ok (take (length pre) cs1) pre" "thrown r' = Some m" "e = Error m"
    by (auto simp: in_order_def)
  have "evs = pre @ [((cs1 @ cs2) ! length pre, r')]"
    using p(1,2) by (simp add: nth_append)
  moreover have "length pre < length (cs1 @ cs2)"
    using p(2) by simp
  moreover have "list_all2 ok (take (length pre) (cs1 @ cs2)) pre"
    using p(2,3) by simp
  ultimately show ?thesis
    using p(4,5) unfolding in_order_def by (simp only: sum.case) blast
qed

lemma in_order_await:
  assumes "emits m (in_order cs1)" and "\<And>x. emits (k x) (in_order cs2)"
  shows "emits (await m k) (in_order (cs1 @ cs2))"
  by (rule emits_weaken [OF emits_await [OF assms]])
     (auto intro: in_order_append in_order_left)

lemma in_order_createFileWithSudo:
  "emits (createFileWithSudo env path content) (in_order (cfs_steps path content))"
  by (rule emits_weaken [OF emits_createFileWithSudo]) (simp add: in_order_def)

lemma all_ok_calls: "list_all2 ok cs evs \<Longrightarrow> map fst evs = cs"
  by (induction rule: list_all2_induct) (auto simp: ok_def)

lemma all_ok_unthrown: "list_all2 ok cs evs \<Longrightarrow> (c, q) \<in> set evs \<Longrightarrow> thrown q = None"
  by (induction rule: list_all2_induct) (auto simp: ok_def)

lemma in_order_calls: "in_order cs r evs \<Longrightarrow> prefix (map fst evs) cs"
proof (cases r)
  case (Inl e)
  assume "in_order cs r evs"
  with Inl obtain pre r' where
    p: "evs = pre @ [(cs ! length pre, r')]" "length pre < length cs"
       "list_all2 ok (take (length pre) cs) pre"
    by (auto simp: in_order_def)
  have "map fst pre = take (length pre) cs"
    using all_ok_calls [OF p(3)] .
  then have "map fst evs = take (Suc (length pre)) cs"
    using p(1,2) by (simp add: take_Suc_conv_app_nth)
  then show ?thesis by (simp add: take_is_prefix)
next
  case (Inr x)
  assume "in_order cs r evs"
  with Inr have "list_all2 ok cs evs" by (simp add: in_order_def)
  then have "map fst evs = cs"
    by (rule all_ok_calls)
  then show ?thesis by simp
qed

lemma in_order_fatal:
  assumes "in_order cs r evs"
  shows "fatal P r evs"
  unfolding fatal_def
proof (intro allI impI)
  fix pre c q post m
  assume ev: "evs = pre @ (c, q) # post" and th: "thrown q = Some m"
  show "post = [] \<and> r = Inl (Error m)"
  proof (cases r)
    case (Inr x)
    with assms have "list_all2 ok cs evs" by (simp add: in_order_def)
    from all_ok_unthrown [OF this, of c q] ev th show ?thesis by simp
  next
    case (Inl e)
    with assms obtain pre0 r' m' where
      p: "evs = pre0 @ [(cs ! length pre0, r')]"
         "list_all2 ok (take (length pre0) cs) pre0" "thrown r' = Some m'" "e = Error m'"
      by (auto simp: in_order_def)
    show ?thesis
    proof (cases post rule: rev_cases)
      case Nil
      with ev p(1) have "q = r'" by simp
      with th p(3,4) Inl Nil show ?thesis by simp
    next
      case (snoc post' x)
      with ev p(1) have "pre0 = pre @ (c, q) # post'" by simp
      then have "(c, q) \<in> set pre0" by simp
      from all_ok_unthrown [OF p(2) this] th show ?thesis by simp
    qed
  qed
qed

lemma fatal_append:
  assumes "fatal P (Inr x) e1" and "fatal P r e2"
  shows "fatal P r (e1 @ e2)"
  unfolding fatal_def
proof (intro allI impI)
  fix pre c q post m
  assume ev: "e1 @ e2 = pre @ (c, q) # post" and pc: "P c" and th: "thrown q = Some m"
  from ev consider
      us where "e1 = pre @ us" "us @ e2 = (c, q) # post"
    | us where "e1 @ us = pre" "e2 = us @ (c, q) # post"
    by (auto simp: append_eq_append_conv2)
  then show "post = [] \<and> r = Inl (Error m)"
  proof cases
    case 1
    show ?thesis
    proof (cases us)
      case Nil
      with 1 have "e2 = [] @ (c, q) # post" by simp
      with assms(2) pc th show ?thesis unfolding fatal_def by blast
    next
      case (Cons u us')
      with 1 have "e1 = pre @ (c, q) # us'" by simp
      with assms(1) pc th have "Inr x = (Inl (Error m) :: error + 'a)"
        unfolding fatal_def by blast
      then show ?thesis by simp
    qed
  next
    case 2
    with assms(2) pc th show ?thesis unfolding fatal_def by blast
  qed
qed

lemma fatal_none: "list_all (\<lambda>ev. \<not> P (fst ev)) evs \<Longrightarrow> fatal P r evs"
  unfolding fatal_def by (auto simp: list_all_iff)

lemma emits_createSymlinkWithSudo:
  "emits (createSymlinkWithSudo env ''/etc/resolv.conf'' ''/etc/resolv-vpn.conf'')
     (\<lambda>r evs. r = Inr () \<and>
        (\<exists>q. evs = (ln_call, q) #
                (case thrown q of
                   None \<Rightarrow> []
                 | Some m \<Rightarrow>
                     [(Warning (''Failed to create symlink from /etc/resolv-vpn.conf to /etc/resolv.conf: '' @ m),
                       quiet)])))"
  unfolding emits_def
proof (intro allI impI)
  fix w r w'
  assume run: "createSymlinkWithSudo env ''/etc/resolv.conf'' ''/etc/resolv-vpn.conf'' w = (r, w')"
  let ?q = "env (trace w) ln_call"
  let ?tail = "case thrown ?q of
                   None \<Rightarrow> []
                 | Some m \<Rightarrow>
                     [(Warning (''Failed to create symlink from /etc/resolv-vpn.conf to /etc/resolv.conf: '' @ m),
                       quiet)]"
  from run have "trace w' = trace w @ (ln_call, ?q) # ?tail \<and> r = Inr ()"
    by (auto simp: createSymlinkWithSudo_def exec_def perform_def log_def Let_def ln_call_def
        split: option.splits)
  then show "\<exists>evs. trace w' = trace w @ evs \<and> r = Inr () \<and>
               (\<exists>q. evs = (ln_call, q) #
                  (case thrown q of
                     None \<Rightarrow> []
                   | Some m \<Rightarrow>
                       [(Warning (''Failed to create symlink from /etc/resolv-vpn.conf to /etc/resolv.conf: '' @ m),
                         quiet)]))"
    by blast
qed

lemma emits_linked:
  "emits (await (createSymlinkWithSudo env ''/etc/resolv.conf'' ''/etc/resolv-vpn.conf'')
            (\<lambda>_. info ''All configuration files created successfully.''))
     (configured [])"
proof (rule emits_weaken [OF emits_await [OF emits_createSymlinkWithSudo emits_info]])
  fix r :: "error + unit" and evs
  assume "(\<exists>e. r = Inl e \<and> Inl e = Inr () \<and>
             (\<exists>q. evs = (ln_call, q) #
                (case thrown q of
                   None \<Rightarrow> []
                 | Some m \<Rightarrow>
                     [(Warning (''Failed to create symlink from /etc/resolv-vpn.conf to /etc/resolv.conf: '' @ m),
                       quiet)]))) \<or>
          (\<exists>x e1 e2. evs = e1 @ e2 \<and>
             (Inr x = Inr () \<and>
              (\<exists>q. e1 = (ln_call, q) #
                (case thrown q of
                   None \<Rightarrow> []
                 | Some m \<Rightarrow>
                     [(Warning (''Failed to create symlink from /etc/resolv-vpn.conf to /etc/resolv.conf: '' @ m),
                       quiet)]))) \<and>
             e2 = [(Info ''All configuration files created successfully.'', quiet)] \<and> r = Inr ())"
  then obtain q where
    "evs = ((ln_call, q) #
                (case thrown q of
                   None \<Rightarrow> []
                 | Some m \<Rightarrow>
                     [(Warning (''Failed to create symlink from /etc/resolv-vpn.conf to /etc/resolv.conf: '' @ m),
                       quiet)])) @ [(Info ''All configuration files created successfully.'', quiet)]"
    and "r = Inr ()"
    by auto
  then have "r = Inr () \<and> evs = [] @ evs \<and> list_all2 ok [] [] \<and> linked evs"
    unfolding linked_def by auto
  then show "configured [] r evs"
    unfolding configured_def by blast
qed

lemma configured_left:
  assumes "in_order cs1 (Inl e) evs"
  shows "configured (cs1 @ cs2) (Inl e) evs"
proof -
  have "in_order (cs1 @ cs2) (Inl e) evs"
    using assms by (rule in_order_left)
  then show ?thesis
    unfolding configured_def by simp
qed

lemma configured_append:
  assumes "in_order cs1 (Inr x) e1" and "configured cs2 r e2"
  shows "configured (cs1 @ cs2) r (e1 @ e2)"
  using assms(2) unfolding configured_def
proof (elim disjE exE conjE)
  fix e
  assume r: "r = Inl e" and io: "in_order cs2 r e2"
  have "in_order (cs1 @ cs2) r (e1 @ e2)"
    using assms(1) io by (rule in_order_append)
  with r show "(\<exists>e. r = Inl e \<and> in_order (cs1 @ cs2) r (e1 @ e2)) \<or>
        (\<exists>written rest. r = Inr () \<and> e1 @ e2 = written @ rest \<and>
           list_all2 ok (cs1 @ cs2) written \<and> linked rest)"
    by simp
next
  fix written rest
  assume r: "r = Inr ()" and e2: "e2 = written @ rest" and w: "list_all2 ok cs2 written"
    and l: "linked rest"
  from assms(1) have "list_all2 ok cs1 e1" by (simp add: in_order_def)
  from this w have all: "list_all2 ok (cs1 @ cs2) (e1 @ written)"
    by (rule list_all2_appendI)
  have "e1 @ e2 = (e1 @ written) @ rest" using e2 by simp
  with r all l have "\<exists>written rest. r = Inr () \<and> e1 @ e2 = written @ rest \<and>
           list_all2 ok (cs1 @ cs2) written \<and> linked rest"
    by (intro exI [of _ "e1 @ written"] exI [of _ rest] conjI)
  then show "(\<exists>e. r = Inl e \<and> in_order (cs1 @ cs2) r (e1 @ e2)) \<or>
        (\<exists>written rest. r = Inr () \<and> e1 @ e2 = written @ rest \<and>
           list_all2 ok (cs1 @ cs2) written \<and> linked rest)" ..
qed

lemma configured_await:
  fixes m :: "'a io"
  assumes "emits m (in_order cs1)" and "\<And>x. emits (k x) (configured cs2)"
  shows "emits (await m k) (configured (cs1 @ cs2))"
proof (rule emits_weaken [OF emits_await [OF assms]])
  fix r :: "error + unit" and evs
  assume "(\<exists>e. r = Inl e \<and> in_order cs1 (Inl e :: error + 'a) evs) \<or>
          (\<exists>(x :: 'a) e1 e2. evs = e1 @ e2 \<and> in_order cs1 (Inr x) e1 \<and>
             configured cs2 r e2)"
  then show "configured (cs1 @ cs2) r evs"
  proof (elim disjE exE conjE)
    fix e
    assume "r = Inl e" and "in_order cs1 (Inl e :: error + 'a) evs"
    then show ?thesis using configured_left [of cs1 e evs cs2] by simp
  next
    fix x :: 'a and e1 e2
    assume "evs = e1 @ e2" and "in_order cs1 (Inr x) e1" and "configured cs2 r e2"
    then show ?thesis using configured_append [of cs1 x e1 cs2 r e2] by simp
  qed
qed

lemma emits_createConfigFiles:
  "emits (createConfigFiles env server username password psk)
     (configured (files_calls server username password psk))"
proof -
  have "emits (createConfigFiles env server username password psk)
     (configured
        (cfs_steps ''/etc/ipsec.conf'' (ipsec_conf server) @
         cfs_steps ''/etc/ipsec.secrets'' (ipsec_secrets server psk) @
         cfs_steps ''/etc/ppp/options.l2tpd.client'' (ppp_options username password) @
         cfs_steps ''/etc/xl2tpd/xl2tpd.conf'' (xl2tpd_conf server) @
         cfs_steps ''/etc/resolv-vpn.conf'' resolv_vpn_conf @ []))"
    unfolding createConfigFiles_def
    by (intro configured_await in_order_createFileWithSudo emits_linked)
  then show ?thesis by (simp add: files_calls_def)
qed

lemma in_order_installTools:
  "emits (installTools env)
     (in_order [Exec ''sudo'' [''apt-get'', ''update''],
                Exec ''sudo'' [''apt-get'', ''install'', ''-y'', ''strongswan'', ''xl2tpd'']])"
proof -
  have "emits (installTools env)
     (in_order ([Exec ''sudo'' [''apt-get'', ''update'']] @
                [Exec ''sudo'' [''apt-get'', ''install'', ''-y'', ''strongswan'', ''xl2tpd'']] @ []))"
    unfolding installTools_def
    by (intro in_order_await in_order_exec in_order_resolved)
  then show ?thesis by simp
qed

lemma in_order_launch:
  "emits (launch env)
     (in_order [Info ''Starting the VPN connection...'',
                Exec ''sudo ipsec start'' [],
                Exec ''sudo xl2tpd -C /tmp/l2tp-control'' [],
                Info ''Waiting for the VPN connection to start...''])"
proof -
  have "emits (launch env)
     (in_order ([Info ''Starting the VPN connection...''] @
                [Exec ''sudo ipsec start'' []] @
                [Exec ''sudo xl2tpd -C /tmp/l2tp-control'' []] @
                [Info ''Waiting for the VPN connection to start...'']))"
    unfolding launch_def
    by (intro in_order_await in_order_exec in_order_info)
  then show ?thesis by simp
qed

section \<open>Matching a chunk and matching the whole output\<close>

lemma star_skip: "s \<in> set (rmatch (Star a) s)"
  by (cases s) auto

lemma rmatch_extend: "x \<in> set (rmatch r s) \<Longrightarrow> x @ v \<in> set (rmatch r (s @ v))"
proof (induction r s arbitrary: x rule: rmatch.induct)
  case (4 a)
  then show ?case by (simp add: star_skip)
next
  case (5 a c cs)
  then show ?case by (auto split: if_splits)
next
  case (6 r1 r2 s)
  from 6(3) obtain y where y: "y \<in> set (rmatch r1 s)" "x \<in> set (rmatch r2 y)"
    by auto
  from 6(1) [OF y(1)] 6(2) [OF y(1) y(2)] show ?case
    by auto
qed (auto split: if_splits)

lemma re_exec_iff: "re_exec r s \<noteq> None \<longleftrightarrow> (\<exists>t. suffix t s \<and> rmatch r t \<noteq> [])"
proof (induction s)
  case Nil
  then show ?case by (auto split: list.splits)
next
  case (Cons c cs)
  show ?case
  proof (cases "rmatch r (c # cs)")
    case Nil
    then have "re_exec r (c # cs) = re_exec r cs" by simp
    moreover have "(\<exists>t. suffix t (c # cs) \<and> rmatch r t \<noteq> []) \<longleftrightarrow>
                   (\<exists>t. suffix t cs \<and> rmatch r t \<noteq> [])"
      using Nil by (auto simp: suffix_Cons)
    ultimately show ?thesis using Cons by simp
  next
    case (Cons rest rests)
    then have "re_exec r (c # cs) \<noteq> None" by simp
    moreover have "suffix (c # cs) (c # cs) \<and> rmatch r (c # cs) \<noteq> []"
      using Cons by simp
    ultimately show ?thesis by blast
  qed
qed

lemma re_test_embedded:
  assumes "re_test r s"
  shows "re_test r (u @ s @ v)"
proof -
  from assms obtain t where t: "suffix t s" "rmatch r t \<noteq> []"
    unfolding re_test_def re_exec_iff by blast
  then obtain x where "x \<in> set (rmatch r t)"
    by (cases "rmatch r t") auto
  then have "rmatch r (t @ v) \<noteq> []"
    using rmatch_extend [of x r t v] by auto
  moreover from t(1) have "suffix (t @ v) (u @ s @ v)"
    by (auto simp: suffix_def)
  ultimately show ?thesis
    unfolding re_test_def re_exec_iff by blast
qed

lemma no_via_chunk:
  assumes "\<not> re_test via_re (concat out)" and "c \<in> set out"
  shows "via_group c = None"
proof -
  from assms(2) obtain ys zs where "out = ys @ c # zs"
    by (auto simp: in_set_conv_decomp)
  then have "concat out = concat ys @ c @ concat zs" by simp
  with assms(1) re_test_embedded [of via_re c "concat ys" "concat zs"]
  have "\<not> re_test via_re c" by auto
  then show ?thesis by (simp add: via_group_def re_test_def)
qed

lemma no_via_gateway:
  assumes "\<not> re_test via_re (concat out)"
  shows "foldl gateway_listener [] out = []"
proof -
  have "\<forall>c\<in>set cs. via_group c = None \<Longrightarrow> foldl gateway_listener g cs = g" for cs g
    by (induction cs arbitrary: g) (auto simp: gateway_listener_def)
  with no_via_chunk [OF assms] show ?thesis by blast
qed

section \<open>\<^verbatim>\<open>startVPN\<close>: what it emits\<close>

lemma emits_route_tail:
  "emits (let gateway = foldl gateway_listener [] out in
          if gateway = [] then throw (Error ''Could not determine gateway to VPN server'')
          else
            await (exec env (''ip route add '' @ server @ '' via '' @ gateway @ '' dev eth0'') [])
              (\<lambda>_. await (exec env ''ip route replace default dev ppp0'' []) (\<lambda>_. resolved ())))
     (\<lambda>r evs. let gateway = foldl gateway_listener [] out in
        if gateway = []
        then evs = [] \<and> r = Inl (Error ''Could not determine gateway to VPN server'')
        else in_order
               [Exec (''ip route add '' @ server @ '' via '' @ gateway @ '' dev eth0'') [],
                Exec ''ip route replace default dev ppp0'' []] r evs)"
proof (cases "foldl gateway_listener [] out = []")
  case True
  then show ?thesis using emits_throw [of "Error ''Could not determine gateway to VPN server''"]
    by (simp add: Let_def)
next
  case False
  let ?gw = "foldl gateway_listener [] out"
  have "emits (await (exec env (''ip route add '' @ server @ '' via '' @ ?gw @ '' dev eth0'') [])
              (\<lambda>_. await (exec env ''ip route replace default dev ppp0'' []) (\<lambda>_. resolved ())))
         (in_order ([Exec (''ip route add '' @ server @ '' via '' @ ?gw @ '' dev eth0'') []] @
                    [Exec ''ip route replace default dev ppp0'' []] @ []))"
    by (intro in_order_await in_order_exec in_order_resolved)
  with False show ?thesis by (simp add: Let_def)
qed

lemma emits_commitRoutes: "emits (commitRoutes env server) (routed server)"
  unfolding commitRoutes_def
proof (rule emits_weaken [OF emits_await [OF emits_info emits_await [OF emits_exec emits_route_tail]]])
  fix r :: "error + unit" and evs
  let ?tailQ = "\<lambda>out r evs. let gateway = foldl gateway_listener [] out in
        if gateway = []
        then evs = [] \<and> r = Inl (Error ''Could not determine gateway to VPN server'')
        else in_order
               [Exec (''ip route add '' @ server @ '' via '' @ gateway @ '' dev eth0'') [],
                Exec ''ip route replace default dev ppp0'' []] r evs"
  assume "(\<exists>e. r = Inl e \<and> evs = [(Info ''Settings routes...'', quiet)] \<and> Inl e = Inr ()) \<or>
          (\<exists>x e1 e2. evs = e1 @ e2 \<and>
             (e1 = [(Info ''Settings routes...'', quiet)] \<and> Inr x = Inr ()) \<and>
             ((\<exists>e. r = Inl e \<and>
                 (\<exists>r'. e2 = [(Exec (''ip route get '' @ server) [], r')] \<and>
                    Inl e = thrown_as r' (chunks r'))) \<or>
              (\<exists>x e1 e2'. e2 = e1 @ e2' \<and>
                 (\<exists>r'. e1 = [(Exec (''ip route get '' @ server) [], r')] \<and>
                    Inr x = thrown_as r' (chunks r')) \<and>
                 ?tailQ x r e2')))"
  then consider
      e q where "evs = [(Info ''Settings routes...'', quiet), (Exec (''ip route get '' @ server) [], q)]"
        "r = Inl e" "Inl e = thrown_as q (chunks q)"
    | out q tail where
        "evs = (Info ''Settings routes...'', quiet) # (Exec (''ip route get '' @ server) [], q) # tail"
        "Inr out = thrown_as q (chunks q)" "?tailQ out r tail"
    by auto
  then show "routed server r evs"
  proof cases
    case 1
    from 1(3) obtain m where "thrown q = Some m" "e = Error m"
      by (auto simp: thrown_as_def split: option.splits)
    with 1(1,2) show ?thesis
      unfolding routed_def by (intro exI [of _ q] exI [of _ "[]"]) simp
  next
    case 2
    from 2(2) have "thrown q = None" "out = chunks q"
      by (auto simp: thrown_as_def split: option.splits)
    with 2(1,3) show ?thesis
      unfolding routed_def by (intro exI [of _ q] exI [of _ tail]) simp
  qed
qed

lemma poller_call_vpn: "poller_call c \<Longrightarrow> vpn_call c \<and> \<not> route_call c"
  by (cases c) auto

lemma prefix_calls_all:
  assumes "prefix (map fst evs) cs" and "list_all P cs"
  shows "list_all (\<lambda>ev. P (fst ev)) evs"
proof -
  from assms(1) have "set (map fst evs) \<subseteq> set cs" by (rule set_mono_prefix)
  with assms(2) show ?thesis by (auto simp: list_all_iff)
qed

lemma waitForVpnConnection_calls:
  assumes "waitForVpnConnection env default_timeout default_interval w = Some (r, w')"
  shows "\<exists>evs. trace w' = trace w @ evs \<and> list_all (\<lambda>ev. poller_call (fst ev)) evs"
proof -
  have "0 < default_interval" by (simp add: default_interval_def)
  from wait_loop_returns [OF this, of env "clock w" default_timeout w] assms
  show ?thesis unfolding waitForVpnConnection_def by auto
qed

lemma waitForVpnConnection_returns:
  "\<exists>r w'. waitForVpnConnection env default_timeout default_interval w = Some (r, w')"
proof -
  have "0 < default_interval" by (simp add: default_interval_def)
  from wait_loop_returns [OF this, of env "clock w" default_timeout w]
  show ?thesis unfolding waitForVpnConnection_def by blast
qed

lemma startVPN_started:
  assumes "startVPN env server w = Some (r, w')"
  shows "\<exists>evs. trace w' = trace w @ evs \<and> started server r evs"
proof -
  let ?P = "\<lambda>c. vpn_call c \<and> \<not> route_call c"
  obtain r1 w1 where l: "launch env w = (r1, w1)" by (cases "launch env w")
  from emitsD [OF in_order_launch l] have
    t1: "trace w1 = trace w @ emitted w w1" and
    o1: "in_order [Info ''Starting the VPN connection...'',
                   Exec ''sudo ipsec start'' [],
                   Exec ''sudo xl2tpd -C /tmp/l2tp-control'' [],
                   Info ''Waiting for the VPN connection to start...''] r1 (emitted w w1)"
    by simp_all
  have p1: "list_all (\<lambda>ev. ?P (fst ev)) (emitted w w1)"
    by (rule prefix_calls_all [OF in_order_calls [OF o1]]) simp
  show ?thesis
  proof (cases r1)
    case (Inl e)
    with assms l have "r = Inl e" "w' = w1" by (simp_all add: startVPN_def)
    with t1 p1 have "trace w' = trace w @ emitted w w1 \<and> started server r (emitted w w1)"
      unfolding started_def by (intro conjI exI [of _ "emitted w w1"] exI [of _ "[]"]) simp_all
    then show ?thesis by blast
  next
    case (Inr u)
    from waitForVpnConnection_returns [of env w1] obtain r2 w2 where
      p: "waitForVpnConnection env default_timeout default_interval w1 = Some (r2, w2)"
      by blast
    from waitForVpnConnection_calls [OF p] obtain e2 where
      t2: "trace w2 = trace w1 @ e2" and c2: "list_all (\<lambda>ev. poller_call (fst ev)) e2"
      by blast
    from c2 have p2: "list_all (\<lambda>ev. ?P (fst ev)) e2"
      using poller_call_vpn by (auto simp: list_all_iff)
    show ?thesis
    proof (cases r2)
      case (Inl e)
      with assms l Inr p have "r = Inl e" "w' = w2" by (simp_all add: startVPN_def)
      with t1 t2 p1 p2
      have "trace w' = trace w @ (emitted w w1 @ e2) \<and> started server r (emitted w w1 @ e2)"
        unfolding started_def
        by (intro conjI exI [of _ "emitted w w1 @ e2"] exI [of _ "[]"]) simp_all
      then show ?thesis by blast
    next
      case (Inr b)
      with assms l \<open>r1 = Inr u\<close> p
      have c: "await (info ''VPN connection established!'') (\<lambda>_. commitRoutes env server) w2 =
                 (r, w')"
        by (simp add: startVPN_def)
      from emitsD [OF emits_await [OF emits_info emits_commitRoutes] c]
      have t3: "trace w' = trace w2 @ emitted w2 w'"
        and "\<exists>rest. emitted w2 w' = (Info ''VPN connection established!'', quiet) # rest \<and>
               routed server r rest"
        by auto
      then obtain rest where
        e3: "emitted w2 w' = (Info ''VPN connection established!'', quiet) # rest"
        and ro: "routed server r rest"
        by blast
      let ?pre = "emitted w w1 @ e2 @ [(Info ''VPN connection established!'', quiet)]"
      have "trace w' = trace w @ (?pre @ rest)"
        using t1 t2 t3 e3 by simp
      moreover have "list_all (\<lambda>ev. ?P (fst ev)) ?pre"
        using p1 p2 by simp
      ultimately have "trace w' = trace w @ (?pre @ rest) \<and> started server r (?pre @ rest)"
        unfolding started_def using ro
        by (intro conjI exI [of _ ?pre] exI [of _ rest]) simp_all
      then show ?thesis by blast
    qed
  qed
qed

lemma startVPN_returns: "\<exists>r w'. startVPN env server w = Some (r, w')"
proof -
  obtain r1 w1 where l: "launch env w = (r1, w1)" by (cases "launch env w")
  from waitForVpnConnection_returns [of env w1] obtain r2 w2 where
    p: "waitForVpnConnection env default_timeout default_interval w1 = Some (r2, w2)"
    by blast
  show ?thesis
    using l p by (cases r1; cases r2) (simp_all add: startVPN_def)
qed

lemma in_order_pair_second:
  assumes "in_order [c1, c2] r evs" and "(c2, b) \<in> set evs" and "c1 \<noteq> c2"
  shows "\<exists>a. evs = [(c1, a), (c2, b)] \<and> thrown a = None"
proof (cases r)
  case (Inr x)
  with assms(1) have "list_all2 ok [c1, c2] evs" by (simp add: in_order_def)
  then obtain a b' where "evs = [(c1, a), (c2, b')]" "thrown a = None"
    by (auto simp: list_all2_Cons1 ok_def)
  with assms(2,3) show ?thesis by auto
next
  case (Inl e)
  with assms(1) obtain pre r' where
    p: "evs = pre @ [([c1, c2] ! length pre, r')]" "length pre < 2"
       "list_all2 ok (take (length pre) [c1, c2]) pre"
    by (auto simp: in_order_def)
  from p(2) consider "length pre = 0" | "length pre = 1" by linarith
  then show ?thesis
  proof cases
    case 1
    with p(1) have "evs = [(c1, r')]" by simp
    with assms(2,3) show ?thesis by simp
  next
    case 2
    with p(3) obtain a where "pre = [(c1, a)]" "thrown a = None"
      by (auto simp: list_all2_Cons1 ok_def)
    with p(1) 2 have "evs = [(c1, a), (c2, r')]" by simp
    with assms(2,3) \<open>thrown a = None\<close> show ?thesis by auto
  qed
qed

lemma gateway_via_text: "foldl gateway_listener [] [via_text] = ''10.1.0.1''"
  by (simp add: via_text_def gateway_listener_def via_group_def via_re_def lit_def plus_def)

lemma no_via_onlink_text: "\<not> re_test via_re (concat [onlink_text])"
  by (simp add: onlink_text_def re_test_def via_re_def lit_def plus_def)

lemma env_routed_run: "startVPN env_routed ''203.0.113.5'' w0 = Some (Inr (), w_routed)"
  using ipsecOk_status_text pppOk_iface_text gateway_via_text
  by (simp add: startVPN_def launch_def waitForVpnConnection_def wait_loop.simps poll_def
      commitRoutes_def io_defs example_defs env_routed_def env_ready_def default_timeout_def
      w_routed_def w_established_def)

lemma env_onlink_run:
  "startVPN env_onlink ''203.0.113.5'' w0 =
     Some (Inl (Error ''Could not determine gateway to VPN server''), w_onlink)"
  using ipsecOk_status_text pppOk_iface_text no_via_gateway [OF no_via_onlink_text]
  by (simp add: startVPN_def launch_def waitForVpnConnection_def wait_loop.simps poll_def
      commitRoutes_def io_defs example_defs env_onlink_def env_ready_def default_timeout_def
      w_onlink_def w_established_def)

text \<open>
  C3. In every execution of \<^verbatim>\<open>startVPN\<close> in which the default route is replaced, the
  replacement is the very last call, and the two calls right before it are the gateway query
  and the addition of the host route to the server through the gateway found by that query,
  both of which succeeded. No other call of the run touches the routes, so the default route
  is never replaced before the host route is in place, and no host route is added after.
\<close>

theorem host_route_before_default_route:
  assumes "startVPN env server w = Some (r, w')"
    and "(Exec ''ip route replace default dev ppp0'' [], b) \<in> set (emitted w w')"
  shows "\<exists>pre q a.
           emitted w w' =
             pre @ [(Exec (''ip route get '' @ server) [], q),
                    (Exec (''ip route add '' @ server @ '' via '' @
                           foldl gateway_listener [] (chunks q) @ '' dev eth0'') [], a),
                    (Exec ''ip route replace default dev ppp0'' [], b)] \<and>
           thrown q = None \<and> thrown a = None \<and> foldl gateway_listener [] (chunks q) \<noteq> [] \<and>
           list_all (\<lambda>ev. \<not> route_call (fst ev)) pre"
proof -
  let ?replace = "Exec ''ip route replace default dev ppp0'' []"
  from startVPN_started [OF assms(1)] obtain evs where
    tr: "trace w' = trace w @ evs" and st: "started server r evs"
    by blast
  have em: "emitted w w' = evs" using tr by (simp add: emitted_def)
  from st obtain pre0 rest where
    s: "evs = pre0 @ rest" "list_all (\<lambda>ev. vpn_call (fst ev) \<and> \<not> route_call (fst ev)) pre0"
       "(rest = [] \<and> (\<exists>e. r = Inl e)) \<or> routed server r rest"
    unfolding started_def by blast
  have "(?replace, b) \<notin> set pre0"
    using s(2) by (auto simp: list_all_iff)
  with assms(2) em s(1) have in_rest: "(?replace, b) \<in> set rest" by auto
  with s(3) have "routed server r rest" by auto
  then obtain q tail where
    ro: "rest = (Info ''Settings routes...'', quiet) # (Exec (''ip route get '' @ server) [], q) # tail"
        "case thrown q of
           Some m \<Rightarrow> tail = [] \<and> r = Inl (Error m)
         | None \<Rightarrow>
             (let gateway = foldl gateway_listener [] (chunks q)
              in if gateway = []
                 then tail = [] \<and> r = Inl (Error ''Could not determine gateway to VPN server'')
                 else in_order
                        [Exec (''ip route add '' @ server @ '' via '' @ gateway @ '' dev eth0'') [],
                         ?replace] r tail)"
    unfolding routed_def by blast
  from in_rest ro(1) have in_tail: "(?replace, b) \<in> set tail" by auto
  then have ne: "tail \<noteq> []" by auto
  let ?gw = "foldl gateway_listener [] (chunks q)"
  from ro(2) ne have q: "thrown q = None"
    by (cases "thrown q") auto
  with ro(2) ne have gw: "?gw \<noteq> []"
    by (auto simp: Let_def split: if_splits)
  with ro(2) q have io: "in_order
        [Exec (''ip route add '' @ server @ '' via '' @ ?gw @ '' dev eth0'') [], ?replace] r tail"
    by (simp add: Let_def)
  from in_order_pair_second [OF io in_tail] obtain a where
    a: "tail = [(Exec (''ip route add '' @ server @ '' via '' @ ?gw @ '' dev eth0'') [], a),
                (?replace, b)]" "thrown a = None"
    by auto
  let ?pre = "pre0 @ [(Info ''Settings routes...'', quiet)]"
  have "emitted w w' = ?pre @ [(Exec (''ip route get '' @ server) [], q),
                    (Exec (''ip route add '' @ server @ '' via '' @ ?gw @ '' dev eth0'') [], a),
                    (?replace, b)]"
    using em s(1) ro(1) a(1) by simp
  moreover have "list_all (\<lambda>ev. \<not> route_call (fst ev)) ?pre"
    using s(2) by (auto simp: list_all_iff)
  ultimately show ?thesis
    using q a(2) gw by (intro exI [of _ ?pre] exI [of _ q] exI [of _ a]) simp
qed

theorem host_route_before_default_route_witness:
  "startVPN env_routed ''203.0.113.5'' w0 = Some (Inr (), w_routed) \<and>
   (Exec ''ip route replace default dev ppp0'' [], fine []) \<in> set (emitted w0 w_routed) \<and>
   (\<exists>pre q a.
      emitted w0 w_routed =
        pre @ [(Exec (''ip route get '' @ ''203.0.113.5'') [], q),
               (Exec (''ip route add '' @ ''203.0.113.5'' @ '' via '' @
                      foldl gateway_listener [] (chunks q) @ '' dev eth0'') [], a),
               (Exec ''ip route replace default dev ppp0'' [], fine [])] \<and>
      thrown q = None \<and> thrown a = None \<and> foldl gateway_listener [] (chunks q) \<noteq> [] \<and>
      list_all (\<lambda>ev. \<not> route_call (fst ev)) pre)"
proof -
  have issued: "(Exec ''ip route replace default dev ppp0'' [], fine []) \<in>
                  set (emitted w0 w_routed)"
    by (simp add: emitted_def w0_def w_routed_def)
  from host_route_before_default_route [OF env_routed_run issued] env_routed_run issued
  show ?thesis by (intro conjI)
qed

text \<open>
  C4. In every execution of \<^verbatim>\<open>startVPN\<close> that gets as far as the gateway query: when the
  output of the query, all chunks together, has no match of \<^verbatim>\<open>via \<close> followed by four
  dot-separated runs of digits, \<^verbatim>\<open>startVPN\<close> throws, the query is its last call, and no call
  of the run before it touched the routes. So neither the host route nor the default route
  is changed. When the query itself succeeded the error is the one that says the gateway
  could not be determined.
\<close>

theorem no_gateway_no_route_change:
  assumes "startVPN env server w = Some (r, w')"
    and "(Exec (''ip route get '' @ server) [], q) \<in> set (emitted w w')"
    and "\<not> re_test via_re (concat (chunks q))"
  shows "(\<exists>e. r = Inl e) \<and>
         (thrown q = None \<longrightarrow> r = Inl (Error ''Could not determine gateway to VPN server'')) \<and>
         (\<exists>pre. emitted w w' = pre @ [(Exec (''ip route get '' @ server) [], q)] \<and>
                list_all (\<lambda>ev. \<not> route_call (fst ev)) pre)"
proof -
  let ?get = "Exec (''ip route get '' @ server) []"
  from startVPN_started [OF assms(1)] obtain evs where
    tr: "trace w' = trace w @ evs" and st: "started server r evs"
    by blast
  have em: "emitted w w' = evs" using tr by (simp add: emitted_def)
  from st obtain pre0 rest where
    s: "evs = pre0 @ rest" "list_all (\<lambda>ev. vpn_call (fst ev) \<and> \<not> route_call (fst ev)) pre0"
       "(rest = [] \<and> (\<exists>e. r = Inl e)) \<or> routed server r rest"
    unfolding started_def by blast
  have "(?get, q) \<notin> set pre0"
    using s(2) by (auto simp: list_all_iff)
  with assms(2) em s(1) have in_rest: "(?get, q) \<in> set rest" by auto
  with s(3) have "routed server r rest" by auto
  then obtain q' tail where
    ro: "rest = (Info ''Settings routes...'', quiet) # (?get, q') # tail"
        "case thrown q' of
           Some m \<Rightarrow> tail = [] \<and> r = Inl (Error m)
         | None \<Rightarrow>
             (let gateway = foldl gateway_listener [] (chunks q')
              in if gateway = []
                 then tail = [] \<and> r = Inl (Error ''Could not determine gateway to VPN server'')
                 else in_order
                        [Exec (''ip route add '' @ server @ '' via '' @ gateway @ '' dev eth0'') [],
                         Exec ''ip route replace default dev ppp0'' []] r tail)"
    unfolding routed_def by blast
  have "(?get, q) \<notin> set tail"
  proof
    assume in_tail: "(?get, q) \<in> set tail"
    then have ne: "tail \<noteq> []" by auto
    let ?gw = "foldl gateway_listener [] (chunks q')"
    from ro(2) ne have "thrown q' = None" by (cases "thrown q'") auto
    with ro(2) ne have "in_order
        [Exec (''ip route add '' @ server @ '' via '' @ ?gw @ '' dev eth0'') [],
         Exec ''ip route replace default dev ppp0'' []] r tail"
      by (auto simp: Let_def split: if_splits)
    from in_order_calls [OF this] have "set (map fst tail) \<subseteq>
        {Exec (''ip route add '' @ server @ '' via '' @ ?gw @ '' dev eth0'') [],
         Exec ''ip route replace default dev ppp0'' []}"
      using set_mono_prefix by fastforce
    with in_tail show False by force
  qed
  with in_rest ro(1) have same: "q' = q" by auto
  from no_via_gateway [OF assms(3)] have gw: "foldl gateway_listener [] (chunks q) = []" .
  from ro(2) same gw have tail: "tail = []"
    by (cases "thrown q") (auto simp: Let_def)
  from ro(2) same gw have res: "\<exists>e. r = Inl e"
    by (cases "thrown q") (auto simp: Let_def)
  from ro(2) same gw have msg:
    "thrown q = None \<longrightarrow> r = Inl (Error ''Could not determine gateway to VPN server'')"
    by (auto simp: Let_def)
  let ?pre = "pre0 @ [(Info ''Settings routes...'', quiet)]"
  have "emitted w w' = ?pre @ [(?get, q)]"
    using em s(1) ro(1) same tail by simp
  moreover have "list_all (\<lambda>ev. \<not> route_call (fst ev)) ?pre"
    using s(2) by (auto simp: list_all_iff)
  ultimately have "\<exists>pre. emitted w w' = pre @ [(?get, q)] \<and>
                list_all (\<lambda>ev. \<not> route_call (fst ev)) pre"
    by (intro exI [of _ ?pre] conjI)
  with res msg show ?thesis by (intro conjI)
qed

theorem no_gateway_no_route_change_witness:
  "startVPN env_onlink ''203.0.113.5'' w0 =
     Some (Inl (Error ''Could not determine gateway to VPN server''), w_onlink) \<and>
   (Exec (''ip route get '' @ ''203.0.113.5'') [], fine [onlink_text]) \<in>
     set (emitted w0 w_onlink) \<and>
   \<not> re_test via_re (concat (chunks (fine [onlink_text]))) \<and>
   (\<exists>pre. emitted w0 w_onlink =
            pre @ [(Exec (''ip route get '' @ ''203.0.113.5'') [], fine [onlink_text])] \<and>
          list_all (\<lambda>ev. \<not> route_call (fst ev)) pre)"
proof -
  have asked: "(Exec (''ip route get '' @ ''203.0.113.5'') [], fine [onlink_text]) \<in>
                 set (emitted w0 w_onlink)"
    by (simp add: emitted_def w0_def w_onlink_def)
  have none: "\<not> re_test via_re (concat (chunks (fine [onlink_text])))"
    using no_via_onlink_text by (simp add: fine_def)
  from no_gateway_no_route_change [OF env_onlink_run asked none] env_onlink_run asked none
  show ?thesis by (intro conjI) blast+
qed

section \<open>\<^verbatim>\<open>run\<close>: what it emits\<close>

lemma emits_cfg_phase:
  "emits (await (info ''Installing necessary tools...'')
            (\<lambda>_. await (installTools env)
                    (\<lambda>_. createConfigFiles env server username password psk)))
     (configured (cfg_calls server username password psk))"
  unfolding cfg_calls_def
  by (intro configured_await in_order_info in_order_installTools emits_createConfigFiles)

lemma run_try_tried:
  assumes "run_try env inputs payload w = Some (r, w')"
  shows "\<exists>evs server username password psk.
           trace w' = trace w @ evs \<and>
           tried (cfg_calls server username password psk) server payload r evs"
proof (cases "\<exists>server username password psk.
                getInput inputs ''server'' = Inr server \<and>
                getInput inputs ''username'' = Inr username \<and>
                getInput inputs ''password'' = Inr password \<and>
                getInput inputs ''psk'' = Inr psk")
  case False
  with assms have "w' = w \<and> (\<exists>e. r = Inl e)"
    by (auto simp: run_try_def split: sum.splits)
  then have "trace w' = trace w @ [] \<and> tried (cfg_calls [] [] [] []) [] payload r []"
    by (simp add: tried_def)
  then show ?thesis by blast
next
  case True
  then obtain server username password psk where
    i: "getInput inputs ''server'' = Inr server" "getInput inputs ''username'' = Inr username"
       "getInput inputs ''password'' = Inr password" "getInput inputs ''psk'' = Inr psk"
    by blast
  let ?cs = "cfg_calls server username password psk"
  let ?cfg = "await (info ''Installing necessary tools...'')
            (\<lambda>_. await (installTools env)
                    (\<lambda>_. createConfigFiles env server username password psk))"
  obtain r1 w1 where c: "?cfg w = (r1, w1)" by (cases "?cfg w")
  from emitsD [OF emits_cfg_phase c] have
    t1: "trace w1 = trace w @ emitted w w1" and c1: "configured ?cs r1 (emitted w w1)"
    by simp_all
  show ?thesis
  proof (cases r1)
    case (Inl e)
    with assms i c have "r = Inl e" "w' = w1" by (simp_all add: run_try_def)
    with c1 Inl have "tried ?cs server payload r (emitted w w1)"
      by (simp add: tried_def)
    with t1 \<open>w' = w1\<close> show ?thesis by blast
  next
    case (Inr u)
    from startVPN_returns [of env server w1] obtain r2 w2 where
      s: "startVPN env server w1 = Some (r2, w2)" by blast
    from startVPN_started [OF s] obtain B where
      t2: "trace w2 = trace w1 @ B" and s2: "started server r2 B" by blast
    from c1 Inr have cA: "configured ?cs (Inr ()) (emitted w w1)" by simp
    show ?thesis
    proof (cases r2)
      case (Inl e)
      with assms i c \<open>r1 = Inr u\<close> s have "r = Inl e" "w' = w2" by (simp_all add: run_try_def)
      with cA s2 Inl have "tried ?cs server payload r (emitted w w1 @ B)"
        unfolding tried_def by (intro disjI2 exI [of _ "emitted w w1"] exI [of _ B] exI [of _ r2]) simp
      moreover have "trace w' = trace w @ (emitted w w1 @ B)"
        using t1 t2 \<open>w' = w2\<close> by simp
      ultimately show ?thesis by blast
    next
      case (Inr u2)
      let ?log = "(ConsoleLog (''The event payload: '' @ payload), quiet)"
      from Inr assms i c \<open>r1 = Inr u\<close> s
      have "r = Inr ()" "w' = log (ConsoleLog (''The event payload: '' @ payload)) w2"
        by (simp_all add: run_try_def)
      with cA s2 Inr have "tried ?cs server payload r (emitted w w1 @ B @ [?log])"
        unfolding tried_def by (intro disjI2 exI [of _ "emitted w w1"] exI [of _ B] exI [of _ r2]) simp
      moreover have "trace w' = trace w @ (emitted w w1 @ B @ [?log])"
        using t1 t2 \<open>w' = log (ConsoleLog (''The event payload: '' @ payload)) w2\<close>
        by (simp add: log_def)
      ultimately show ?thesis by blast
    qed
  qed
qed

lemma run_try_returns: "\<exists>r w'. run_try env inputs payload w = Some (r, w')"
proof (cases "\<exists>server username password psk.
                getInput inputs ''server'' = Inr server \<and>
                getInput inputs ''username'' = Inr username \<and>
                getInput inputs ''password'' = Inr password \<and>
                getInput inputs ''psk'' = Inr psk")
  case False
  then show ?thesis by (auto simp: run_try_def split: sum.splits)
next
  case True
  then obtain server username password psk where
    i: "getInput inputs ''server'' = Inr server" "getInput inputs ''username'' = Inr username"
       "getInput inputs ''password'' = Inr password" "getInput inputs ''psk'' = Inr psk"
    by blast
  let ?cfg = "await (info ''Installing necessary tools...'')
            (\<lambda>_. await (installTools env)
                    (\<lambda>_. createConfigFiles env server username password psk))"
  obtain r1 w1 where c: "?cfg w = (r1, w1)" by (cases "?cfg w")
  from startVPN_returns [of env server w1] obtain r2 w2 where
    s: "startVPN env server w1 = Some (r2, w2)" by blast
  show ?thesis
    using i c s by (cases r1; cases r2) (simp_all add: run_try_def)
qed

lemma run_returns: "\<exists>w'. run env inputs payload w = Some w'"
proof -
  from run_try_returns [of env inputs payload w] obtain r w1 where
    "run_try env inputs payload w = Some (r, w1)" by blast
  then show ?thesis
    by (cases r) (auto simp: run_def split: error.splits)
qed

lemma run_shape:
  assumes "run env inputs payload w = Some w'"
  shows "\<exists>r evs server username password psk.
           emitted w w' = evs @ caught r \<and>
           tried (cfg_calls server username password psk) server payload r evs"
proof -
  from run_try_returns [of env inputs payload w] obtain r w1 where
    t: "run_try env inputs payload w = Some (r, w1)" by blast
  from run_try_tried [OF t] obtain evs server username password psk where
    e: "trace w1 = trace w @ evs"
       "tried (cfg_calls server username password psk) server payload r evs"
    by blast
  have "trace w' = trace w @ evs @ caught r"
    using assms t e(1) by (cases r) (auto simp: run_def caught_def log_def split: error.splits)
  then have "emitted w w' = evs @ caught r"
    by (simp add: emitted_def)
  with e(2) show ?thesis by blast
qed

section \<open>The generated artifacts\<close>

lemma files_calls_eq:
  "files_calls server username password psk =
     [WriteFile ''/tmp/ipsec.conf'' (ipsec_conf server),
      Exec ''sudo'' [''mkdir'', ''-p'', ''/etc''],
      Exec ''sudo'' [''mv'', ''/tmp/ipsec.conf'', ''/etc/ipsec.conf''],
      Exec ''sudo'' [''chmod'', ''600'', ''/etc/ipsec.conf''],
      WriteFile ''/tmp/ipsec.secrets'' (ipsec_secrets server psk),
      Exec ''sudo'' [''mkdir'', ''-p'', ''/etc''],
      Exec ''sudo'' [''mv'', ''/tmp/ipsec.secrets'', ''/etc/ipsec.secrets''],
      Exec ''sudo'' [''chmod'', ''600'', ''/etc/ipsec.secrets''],
      WriteFile ''/tmp/options.l2tpd.client'' (ppp_options username password),
      Exec ''sudo'' [''mkdir'', ''-p'', ''/etc/ppp''],
      Exec ''sudo'' [''mv'', ''/tmp/options.l2tpd.client'', ''/etc/ppp/options.l2tpd.client''],
      Exec ''sudo'' [''chmod'', ''600'', ''/etc/ppp/options.l2tpd.client''],
      WriteFile ''/tmp/xl2tpd.conf'' (xl2tpd_conf server),
      Exec ''sudo'' [''mkdir'', ''-p'', ''/etc/xl2tpd''],
      Exec ''sudo'' [''mv'', ''/tmp/xl2tpd.conf'', ''/etc/xl2tpd/xl2tpd.conf''],
      Exec ''sudo'' [''chmod'', ''600'', ''/etc/xl2tpd/xl2tpd.conf''],
      WriteFile ''/tmp/resolv-vpn.conf'' resolv_vpn_conf,
      Exec ''sudo'' [''mkdir'', ''-p'', ''/etc''],
      Exec ''sudo'' [''mv'', ''/tmp/resolv-vpn.conf'', ''/etc/resolv-vpn.conf''],
      Exec ''sudo'' [''chmod'', ''600'', ''/etc/resolv-vpn.conf'']]"
  by (simp add: files_calls_def cfs_steps_def artifact_paths)

lemma linked_calls:
  assumes "linked rest" and "(c, q) \<in> set rest"
  shows "c = ln_call \<or> (\<exists>m. c = Warning m) \<or> (\<exists>m. c = Info m)"
proof -
  from assms(1) obtain q0 where
    r: "rest = (ln_call, q0) #
          (case thrown q0 of
             None \<Rightarrow> []
           | Some m \<Rightarrow>
               [(Warning (''Failed to create symlink from /etc/resolv-vpn.conf to /etc/resolv.conf: '' @ m),
                 quiet)]) @
          [(Info ''All configuration files created successfully.'', quiet)]"
    unfolding linked_def by blast
  show ?thesis
  proof (cases "thrown q0")
    case None
    with r assms(2) show ?thesis by auto
  next
    case (Some m)
    with r assms(2) show ?thesis by auto
  qed
qed

lemma configured_calls:
  assumes "configured cs r evs" and "(c, q) \<in> set evs"
  shows "c \<in> set cs \<or> c = ln_call \<or> (\<exists>m. c = Warning m) \<or> (\<exists>m. c = Info m)"
  using assms(1) unfolding configured_def
proof (elim disjE exE conjE)
  fix e
  assume "in_order cs r evs"
  from in_order_calls [OF this] have "set (map fst evs) \<subseteq> set cs" by (rule set_mono_prefix)
  moreover from assms(2) have "c \<in> set (map fst evs)" by (simp add: rev_image_eqI)
  ultimately show ?thesis by blast
next
  fix written rest
  assume e: "evs = written @ rest" and w: "list_all2 ok cs written" and l: "linked rest"
  from assms(2) e consider "(c, q) \<in> set written" | "(c, q) \<in> set rest" by auto
  then show ?thesis
  proof cases
    case 1
    then have "c \<in> set (map fst written)" by (simp add: rev_image_eqI)
    with all_ok_calls [OF w] show ?thesis by simp
  next
    case 2
    from linked_calls [OF l 2] show ?thesis by simp
  qed
qed

lemma configured_success:
  assumes "configured cs (Inr u) evs" and "c \<in> set cs"
  shows "\<exists>q. (c, q) \<in> set evs \<and> thrown q = None"
proof -
  from assms(1) obtain written rest where
    e: "evs = written @ rest" and w: "list_all2 ok cs written"
    unfolding configured_def by auto
  from assms(2) obtain i where i: "i < length cs" "cs ! i = c"
    by (auto simp: in_set_conv_nth)
  with w have "ok c (written ! i)" "i < length written"
    by (auto simp: list_all2_conv_all_nth)
  then have "(c, snd (written ! i)) = written ! i" and "thrown (snd (written ! i)) = None"
    by (simp_all add: ok_def prod_eq_iff)
  with \<open>i < length written\<close> have "(c, snd (written ! i)) \<in> set written"
    by (metis nth_mem)
  with e \<open>thrown (snd (written ! i)) = None\<close> show ?thesis by auto
qed

lemma configured_first:
  assumes "configured (c # cs) r evs"
  shows "\<exists>q rest. evs = (c, q) # rest"
  using assms unfolding configured_def
proof (elim disjE exE conjE)
  fix e
  assume "r = Inl e" and "in_order (c # cs) r evs"
  then obtain pre q where
    p: "evs = pre @ [((c # cs) ! length pre, q)]" "list_all2 ok (take (length pre) (c # cs)) pre"
    by (auto simp: in_order_def)
  show ?thesis
  proof (cases pre)
    case Nil
    with p(1) show ?thesis by simp
  next
    case (Cons x xs)
    with p(2) have "fst x = c" by (simp add: ok_def)
    with p(1) Cons show ?thesis by (cases x) simp
  qed
next
  fix written rest
  assume "evs = written @ rest" and "list_all2 ok (c # cs) written"
  then show ?thesis by (auto simp: list_all2_Cons1 ok_def)
qed

text \<open>
  C7. Whenever \<^verbatim>\<open>createConfigFiles\<close> writes the staging file of the secrets artifact,
  \<^verbatim>\<open>/tmp/ipsec.secrets\<close>, the content is exactly the server, the text \<^verbatim>\<open> : PSK \<close>, and the
  key between two double quotes: nothing before, nothing after, no newline added. When
  \<^verbatim>\<open>createConfigFiles\<close> succeeds that write has been made and the file has been moved to
  \<^verbatim>\<open>/etc/ipsec.secrets\<close>.
\<close>

theorem secrets_content_exact:
  assumes "createConfigFiles env server username password psk w = (r, w')"
  shows "(\<forall>c q. (WriteFile ''/tmp/ipsec.secrets'' c, q) \<in> set (emitted w w') \<longrightarrow>
            c = server @ '' : PSK '' @ [CHR 0x22] @ psk @ [CHR 0x22]) \<and>
         (r = Inr () \<longrightarrow>
            (\<exists>q. (WriteFile ''/tmp/ipsec.secrets''
                     (server @ '' : PSK '' @ [CHR 0x22] @ psk @ [CHR 0x22]), q)
                    \<in> set (emitted w w') \<and> thrown q = None) \<and>
            (\<exists>q. (Exec ''sudo'' [''mv'', ''/tmp/ipsec.secrets'', ''/etc/ipsec.secrets''], q)
                    \<in> set (emitted w w') \<and> thrown q = None))"
proof -
  let ?cs = "files_calls server username password psk"
  from emitsD [OF emits_createConfigFiles assms]
  have conf: "configured ?cs r (emitted w w')" by simp
  have exact: "c = server @ '' : PSK '' @ [CHR 0x22] @ psk @ [CHR 0x22]"
    if "(WriteFile ''/tmp/ipsec.secrets'' c, q) \<in> set (emitted w w')" for c q
  proof -
    from configured_calls [OF conf that]
    have "WriteFile ''/tmp/ipsec.secrets'' c \<in> set ?cs"
      by (auto simp: ln_call_def)
    then have "c = ipsec_secrets server psk"
      by (simp add: files_calls_eq)
    then show ?thesis by (simp add: ipsec_secrets_def)
  qed
  have written: "(\<exists>q. (WriteFile ''/tmp/ipsec.secrets''
                     (server @ '' : PSK '' @ [CHR 0x22] @ psk @ [CHR 0x22]), q)
                    \<in> set (emitted w w') \<and> thrown q = None) \<and>
            (\<exists>q. (Exec ''sudo'' [''mv'', ''/tmp/ipsec.secrets'', ''/etc/ipsec.secrets''], q)
                    \<in> set (emitted w w') \<and> thrown q = None)"
    if "r = Inr ()"
  proof -
    from conf that have ok: "configured ?cs (Inr ()) (emitted w w')" by simp
    have "WriteFile ''/tmp/ipsec.secrets'' (ipsec_secrets server psk) \<in> set ?cs"
      and "Exec ''sudo'' [''mv'', ''/tmp/ipsec.secrets'', ''/etc/ipsec.secrets''] \<in> set ?cs"
      by (simp_all add: files_calls_eq)
    from configured_success [OF ok this(1)] configured_success [OF ok this(2)]
    show ?thesis by (simp add: ipsec_secrets_def)
  qed
  from exact written show ?thesis by blast
qed

lemma split_line: "c \<notin> set l \<Longrightarrow> split c (l @ c # rest) = l # split c rest"
  by (induction l) auto

lemma split_unlines:
  "\<forall>l\<in>set ls. c \<notin> set l \<Longrightarrow> split c (concat (map (\<lambda>l. l @ [c]) ls)) = ls @ [[]]"
  by (induction ls) (auto simp: split_line)

lemma ipsec_conf_unlines:
  "ipsec_conf server =
     concat (map (\<lambda>l. l @ ''\<newline>'')
     ['''',
      ''config setup'',
      '''',
      ''conn L2TP-PSK'',
      ''    # Use IKEv1 for key exchange (IKEv2 is typically used in IPsec only setups, without L2TP)'',
      ''    keyexchange=ikev1'',
      '''',
      ''    # Use these ciphers (see full list here https://wiki.strongswan.org/projects/strongswan/wiki/IKEv1CipherSuites):'',
      ''    # - aes128-sha256-modp2048: the most widely supported'',
      ''    # - aes256-sha256-modp2048: a stronger alternative, not as widely supported'',
      ''    # - aes256-sha512-modp4096: the strongest, but unlikely to be supported'',
      ''    ike=aes128-sha256-modp2048,aes256-sha256-modp2048,aes256-sha512-modp4096'',
      '''',
      ''    # Start the connection when the IPsec service starts'',
      ''    auto=start'',
      '''',
      ''    # Authenticate using a pre-shared key'',
      ''    authby=psk'',
      '''',
      ''    # Use IPsec only as a transport mode and not a tunnel on its own'',
      ''    type=transport'',
      '''',
      ''    # IP address of the VPN server'',
      ''    right='' @ server])"
  by (simp add: ipsec_conf_def)

lemma ipsec_conf_lines:
  assumes "CHR ''\<newline>'' \<notin> set server"
  shows "split CHR ''\<newline>'' (ipsec_conf server) =
     ['''',
      ''config setup'',
      '''',
      ''conn L2TP-PSK'',
      ''    # Use IKEv1 for key exchange (IKEv2 is typically used in IPsec only setups, without L2TP)'',
      ''    keyexchange=ikev1'',
      '''',
      ''    # Use these ciphers (see full list here https://wiki.strongswan.org/projects/strongswan/wiki/IKEv1CipherSuites):'',
      ''    # - aes128-sha256-modp2048: the most widely supported'',
      ''    # - aes256-sha256-modp2048: a stronger alternative, not as widely supported'',
      ''    # - aes256-sha512-modp4096: the strongest, but unlikely to be supported'',
      ''    ike=aes128-sha256-modp2048,aes256-sha256-modp2048,aes256-sha512-modp4096'',
      '''',
      ''    # Start the connection when the IPsec service starts'',
      ''    auto=start'',
      '''',
      ''    # Authenticate using a pre-shared key'',
      ''    authby=psk'',
      '''',
      ''    # Use IPsec only as a transport mode and not a tunnel on its own'',
      ''    type=transport'',
      '''',
      ''    # IP address of the VPN server'',
      ''    right='' @ server] @ [[]]"
  unfolding ipsec_conf_unlines
  by (rule split_unlines) (simp add: assms)

lemma ipsec_conf_right:
  assumes "CHR ''\<newline>'' \<notin> set server"
  shows "conf_values ''right'' (ipsec_conf server) = [server]"
  by (simp add: conf_values_def ipsec_conf_lines [OF assms])

lemma ipsec_conf_ike:
  assumes "CHR ''\<newline>'' \<notin> set server"
  shows "map (split CHR '','') (conf_values ''ike'' (ipsec_conf server)) =
           [[''aes128-sha256-modp2048'', ''aes256-sha256-modp2048'', ''aes256-sha512-modp4096'']]"
  by (simp add: conf_values_def ipsec_conf_lines [OF assms])

lemma env_silent_configures:
  "fst (createConfigFiles env_silent server username password psk w0) = Inr ()"
  by (simp add: createConfigFiles_def createFileWithSudo_def createSymlinkWithSudo_def io_defs
      env_silent_def fine_def artifact_paths)

theorem secrets_content_exact_witness:
  "fst (createConfigFiles env_silent ''203.0.113.5'' ''alice'' ''wonderland'' ''shared'' w0) = Inr () \<and>
   (\<exists>q. (WriteFile ''/tmp/ipsec.secrets''
            (''203.0.113.5'' @ '' : PSK '' @ [CHR 0x22] @ ''shared'' @ [CHR 0x22]), q)
          \<in> set (emitted w0
                (snd (createConfigFiles env_silent ''203.0.113.5'' ''alice'' ''wonderland''
                        ''shared'' w0))) \<and>
        thrown q = None)"
proof -
  let ?run = "createConfigFiles env_silent ''203.0.113.5'' ''alice'' ''wonderland'' ''shared'' w0"
  have run: "?run = (fst ?run, snd ?run)" by simp
  from secrets_content_exact [OF run] env_silent_configures [of "''203.0.113.5''"]
  show ?thesis by simp
qed

text \<open>
  C8. The first thing \<^verbatim>\<open>createConfigFiles\<close> does is write the staging file of the IPsec
  policy, and for a server address without a line break its content assigns \<^verbatim>\<open>right\<close>
  exactly once, to the server, and assigns \<^verbatim>\<open>ike\<close> exactly once, to the three cipher suites
  in the order \<^verbatim>\<open>aes128-sha256-modp2048\<close>, \<^verbatim>\<open>aes256-sha256-modp2048\<close>,
  \<^verbatim>\<open>aes256-sha512-modp4096\<close>.
\<close>

theorem policy_right_and_ciphers:
  assumes "createConfigFiles env server username password psk w = (r, w')"
    and "CHR ''\<newline>'' \<notin> set server"
  shows "\<exists>c q rest.
           emitted w w' = (WriteFile ''/tmp/ipsec.conf'' c, q) # rest \<and>
           conf_values ''right'' c = [server] \<and>
           map (split CHR '','') (conf_values ''ike'' c) =
             [[''aes128-sha256-modp2048'', ''aes256-sha256-modp2048'',
               ''aes256-sha512-modp4096'']]"
proof -
  from emitsD [OF emits_createConfigFiles assms(1)]
  have "configured (files_calls server username password psk) r (emitted w w')" by simp
  then obtain q rest where
    first: "emitted w w' = (WriteFile ''/tmp/ipsec.conf'' (ipsec_conf server), q) # rest"
    unfolding files_calls_eq using configured_first by blast
  show ?thesis
    by (rule exI [of _ "ipsec_conf server"], rule exI [of _ q], rule exI [of _ rest])
       (simp only: first ipsec_conf_right [OF assms(2)] ipsec_conf_ike [OF assms(2)] simp_thms)
qed

theorem policy_right_and_ciphers_witness:
  "CHR ''\<newline>'' \<notin> set ''203.0.113.5'' \<and>
   (\<exists>c q rest.
      emitted w0
        (snd (createConfigFiles env_silent ''203.0.113.5'' ''alice'' ''wonderland'' ''shared'' w0)) =
        (WriteFile ''/tmp/ipsec.conf'' c, q) # rest \<and>
      conf_values ''right'' c = [''203.0.113.5''] \<and>
      map (split CHR '','') (conf_values ''ike'' c) =
        [[''aes128-sha256-modp2048'', ''aes256-sha256-modp2048'', ''aes256-sha512-modp4096'']])"
proof -
  let ?run = "createConfigFiles env_silent ''203.0.113.5'' ''alice'' ''wonderland'' ''shared'' w0"
  have run: "?run = (fst ?run, snd ?run)" by simp
  have single: "CHR ''\<newline>'' \<notin> set ''203.0.113.5''" by simp
  from policy_right_and_ciphers [OF run single] single show ?thesis by (intro conjI)
qed

section \<open>Failures and order in a whole run\<close>

lemma split_event_right:
  assumes "xs @ ys = pre @ ev # post" and "ev \<notin> set xs"
  shows "\<exists>us. pre = xs @ us \<and> ys = us @ ev # post"
proof -
  from assms(1) consider
      us where "xs = pre @ us" "us @ ys = ev # post"
    | us where "xs @ us = pre" "ys = us @ ev # post"
    by (auto simp: append_eq_append_conv2)
  then show ?thesis
  proof cases
    case 1
    show ?thesis
    proof (cases us)
      case Nil
      with 1 show ?thesis by simp
    next
      case (Cons u us')
      with 1 have "ev \<in> set xs" by simp
      with assms(2) show ?thesis by simp
    qed
  next
    case 2
    then show ?thesis by auto
  qed
qed

lemma split_event_left:
  assumes "xs @ ys = pre @ ev # post" and "ev \<notin> set ys"
  shows "\<exists>us. xs = pre @ ev # us \<and> post = us @ ys"
proof -
  from assms(1) consider
      us where "xs = pre @ us" "us @ ys = ev # post"
    | us where "xs @ us = pre" "ys = us @ ev # post"
    by (auto simp: append_eq_append_conv2)
  then show ?thesis
  proof cases
    case 1
    show ?thesis
    proof (cases us)
      case Nil
      with 1 have "ev \<in> set ys" by simp
      with assms(2) show ?thesis by simp
    next
      case (Cons u us')
      with 1 show ?thesis by simp
    qed
  next
    case 2
    then have "ev \<in> set ys" by simp
    with assms(2) show ?thesis by simp
  qed
qed

lemma cfg_calls_all: "list_all cfg_call (cfg_calls server username password psk)"
  by (simp add: cfg_calls_def files_calls_eq)

lemma cfg_calls_last:
  "\<exists>cs. cfg_calls server username password psk =
           cs @ [Exec ''sudo'' [''chmod'', ''600'', ''/etc/resolv-vpn.conf'']]"
  by (simp add: cfg_calls_def files_calls_eq)

lemma configured_cfg_calls:
  assumes "configured cs r evs" and "list_all cfg_call cs" and "(c, q) \<in> set evs"
  shows "cfg_call c"
proof -
  from configured_calls [OF assms(1,3)] consider
    "c \<in> set cs" | "c = ln_call" | m where "c = Warning m" | m where "c = Info m"
    by blast
  then show ?thesis
    using assms(2) by cases (auto simp: list_all_iff ln_call_def)
qed

lemma routed_vpn_calls:
  assumes "routed server r evs" and "(c, q) \<in> set evs"
  shows "vpn_call c"
proof -
  from assms(1) obtain q0 tail where
    ro: "evs = (Info ''Settings routes...'', quiet) #
               (Exec (''ip route get '' @ server) [], q0) # tail"
        "case thrown q0 of
           Some m \<Rightarrow> tail = [] \<and> r = Inl (Error m)
         | None \<Rightarrow>
             (let gateway = foldl gateway_listener [] (chunks q0)
              in if gateway = []
                 then tail = [] \<and> r = Inl (Error ''Could not determine gateway to VPN server'')
                 else in_order
                        [Exec (''ip route add '' @ server @ '' via '' @ gateway @ '' dev eth0'') [],
                         Exec ''ip route replace default dev ppp0'' []] r tail)"
    unfolding routed_def by blast
  show ?thesis
  proof (cases "(c, q) \<in> set tail")
    case False
    with assms(2) ro(1) show ?thesis by auto
  next
    case True
    then have ne: "tail \<noteq> []" by auto
    let ?gw = "foldl gateway_listener [] (chunks q0)"
    from ro(2) ne have "thrown q0 = None" by (cases "thrown q0") auto
    with ro(2) ne have "in_order
        [Exec (''ip route add '' @ server @ '' via '' @ ?gw @ '' dev eth0'') [],
         Exec ''ip route replace default dev ppp0'' []] r tail"
      by (auto simp: Let_def split: if_splits)
    from in_order_calls [OF this] have "set (map fst tail) \<subseteq>
        {Exec (''ip route add '' @ server @ '' via '' @ ?gw @ '' dev eth0'') [],
         Exec ''ip route replace default dev ppp0'' []}"
      using set_mono_prefix by fastforce
    moreover from True have "c \<in> set (map fst tail)" by (simp add: rev_image_eqI)
    ultimately show ?thesis by auto
  qed
qed

lemma started_vpn_calls:
  assumes "started server r evs" and "(c, q) \<in> set evs"
  shows "vpn_call c"
proof -
  from assms(1) obtain pre rest where
    s: "evs = pre @ rest" "list_all (\<lambda>ev. vpn_call (fst ev) \<and> \<not> route_call (fst ev)) pre"
       "(rest = [] \<and> (\<exists>e. r = Inl e)) \<or> routed server r rest"
    unfolding started_def by blast
  from assms(2) s(1) consider "(c, q) \<in> set pre" | "(c, q) \<in> set rest" by auto
  then show ?thesis
  proof cases
    case 1
    with s(2) show ?thesis by (auto simp: list_all_iff)
  next
    case 2
    with s(3) have "routed server r rest" by auto
    from routed_vpn_calls [OF this 2] show ?thesis .
  qed
qed

lemma step_not_vpn: "is_step c \<Longrightarrow> \<not> vpn_call c"
  by (cases c) (auto split: list.splits)

lemma configured_fatal:
  assumes "configured cs r evs"
  shows "fatal is_step r evs"
  using assms unfolding configured_def
proof (elim disjE exE conjE)
  fix e
  assume "in_order cs r evs"
  then show ?thesis by (rule in_order_fatal)
next
  fix written rest
  assume e: "evs = written @ rest" and w: "list_all2 ok cs written" and l: "linked rest"
  show ?thesis
    unfolding fatal_def
  proof (intro allI impI)
    fix pre c q post m
    assume ev: "evs = pre @ (c, q) # post" and st: "is_step c" and th: "thrown q = Some m"
    from ev e have "(c, q) \<in> set written \<or> (c, q) \<in> set rest"
      by (metis Un_iff in_set_conv_decomp set_append)
    then show "post = [] \<and> r = Inl (Error m)"
    proof
      assume "(c, q) \<in> set written"
      from all_ok_unthrown [OF w this] th show ?thesis by simp
    next
      assume "(c, q) \<in> set rest"
      from linked_calls [OF l this] st show ?thesis by (auto simp: ln_call_def)
    qed
  qed
qed

lemma tried_fatal:
  assumes "tried cs server payload r evs"
  shows "fatal is_step r evs"
  using assms unfolding tried_def
proof (elim disjE exE conjE)
  assume "evs = []"
  then show ?thesis by (simp add: fatal_def)
next
  fix e
  assume "r = Inl e" and "configured cs (Inl e) evs"
  then show ?thesis using configured_fatal by blast
next
  fix A B r2
  assume cA: "configured cs (Inr ()) A" and sB: "started server r2 B"
    and c: "case r2 of
              Inl e \<Rightarrow> evs = A @ B \<and> r = Inl e
            | Inr _ \<Rightarrow> evs = A @ B @ [(ConsoleLog (''The event payload: '' @ payload), quiet)] \<and>
                         r = Inr ()"
  let ?T = "B @ (case r2 of Inl e \<Rightarrow> []
                 | Inr _ \<Rightarrow> [(ConsoleLog (''The event payload: '' @ payload), quiet)])"
  from c have evs: "evs = A @ ?T" by (cases r2) auto
  have "\<not> is_step (fst ev)" if "ev \<in> set ?T" for ev
  proof (cases "ev \<in> set B")
    case True
    then have "(fst ev, snd ev) \<in> set B" by simp
    from started_vpn_calls [OF sB this] step_not_vpn show ?thesis by blast
  next
    case False
    with that have "fst ev = ConsoleLog (''The event payload: '' @ payload)"
      by (cases r2) auto
    then show ?thesis by simp
  qed
  then have "list_all (\<lambda>ev. \<not> is_step (fst ev)) ?T"
    by (simp add: list_all_iff)
  then have "fatal is_step r ?T" by (rule fatal_none)
  with configured_fatal [OF cA] show ?thesis
    unfolding evs by (rule fatal_append)
qed

lemma run_step_failure:
  assumes "run env inputs payload w = Some w'"
    and "emitted w w' = pre @ (c, q) # post" and "is_step c" and "thrown q = Some m"
  shows "post = [(SetFailed m, quiet)]"
proof -
  from run_shape [OF assms(1)] obtain r evs server username password psk where
    e: "emitted w w' = evs @ caught r"
    and t: "tried (cfg_calls server username password psk) server payload r evs"
    by blast
  have "(c, q) \<notin> set (caught r)"
    using assms(3) by (auto simp: caught_def split: sum.splits error.splits)
  with e assms(2) have "\<exists>us. evs = pre @ (c, q) # us \<and> post = us @ caught r"
    using split_event_left [of evs "caught r" pre "(c, q)" post] by simp
  then obtain us where us: "evs = pre @ (c, q) # us" "post = us @ caught r"
    by blast
  from tried_fatal [OF t] us(1) assms(3,4) have "us = [] \<and> r = Inl (Error m)"
    unfolding fatal_def by blast
  with us(2) show ?thesis by (simp add: caught_def)
qed

lemmas run_defs =
  run_def run_try_def getInput_def trim_def isWhiteSpace_def inputs0_def installTools_def
  createConfigFiles_def createFileWithSudo_def createSymlinkWithSudo_def artifact_paths
  cfg_calls_def files_calls_eq ln_call_def

lemma env_readonly_file:
  "createFileWithSudo env_readonly ''/etc/ipsec.secrets'' ''s'' w0 =
     (Inl (Error ''The process /usr/bin/sudo failed with exit code 1''), w_denied)"
  by (simp add: createFileWithSudo_def artifact_paths io_defs example_defs env_readonly_def
      mv_denied_def w_denied_def)

lemma env_readonly_run: "run env_readonly inputs0 ''{}'' w0 = Some w_failed"
  by (simp add: run_defs io_defs example_defs env_readonly_def mv_denied_def w_failed_def)

lemma env_no_ipsec_run: "run env_no_ipsec inputs0 ''{}'' w0 = Some w_no_ipsec"
  by (simp add: run_defs startVPN_def launch_def io_defs example_defs env_no_ipsec_def
      w_no_ipsec_def)

text \<open>
  C6. Part one, for every call of \<^verbatim>\<open>createFileWithSudo\<close>. Its steps are: write the content
  to the staging file, create the directory (when the path has one), move the staging file
  to the final path with \<^verbatim>\<open>sudo mv\<close>, set the mode of the final path to 600 with
  \<^verbatim>\<open>sudo chmod\<close>. When the call succeeds, these steps have been issued in this order and
  each has succeeded, the \<^verbatim>\<open>chmod 600\<close> last. When it fails, the steps have been issued in
  this order up to the first one that threw, nothing after it, and the error thrown by the
  call is the error of that step. Part two, for every run: a step that throws is followed by
  exactly one more call, \<^verbatim>\<open>core.setFailed\<close> with the message of that step's error.
\<close>

theorem writeProtected_contract:
  "(createFileWithSudo env path content w = (r, w') \<longrightarrow>
      (let steps =
             WriteFile (tempFile path) content #
             (if dirname path = [] then [] else [Exec ''sudo'' [''mkdir'', ''-p'', dirname path]]) @
             [Exec ''sudo'' [''mv'', tempFile path, path],
              Exec ''sudo'' [''chmod'', ''600'', path]]
       in case r of
            Inr _ \<Rightarrow> list_all2 ok steps (emitted w w')
          | Inl e \<Rightarrow>
              (\<exists>done q m. emitted w w' = done @ [(steps ! length done, q)] \<and>
                 length done < length steps \<and>
                 list_all2 ok (take (length done) steps) done \<and>
                 thrown q = Some m \<and> e = Error m))) \<and>
   (run env inputs payload v = Some v' \<longrightarrow> emitted v v' = pre @ (c, q') # post \<longrightarrow>
      is_step c \<longrightarrow> thrown q' = Some m' \<longrightarrow> post = [(SetFailed m', quiet)])"
proof (intro conjI impI)
  assume "createFileWithSudo env path content w = (r, w')"
  from emitsD [OF in_order_createFileWithSudo this]
  have "in_order (cfs_steps path content) r (emitted w w')" by simp
  then show "let steps =
             WriteFile (tempFile path) content #
             (if dirname path = [] then [] else [Exec ''sudo'' [''mkdir'', ''-p'', dirname path]]) @
             [Exec ''sudo'' [''mv'', tempFile path, path],
              Exec ''sudo'' [''chmod'', ''600'', path]]
       in case r of
            Inr _ \<Rightarrow> list_all2 ok steps (emitted w w')
          | Inl e \<Rightarrow>
              (\<exists>done q m. emitted w w' = done @ [(steps ! length done, q)] \<and>
                 length done < length steps \<and>
                 list_all2 ok (take (length done) steps) done \<and>
                 thrown q = Some m \<and> e = Error m)"
    unfolding in_order_def cfs_steps_def Let_def .
next
  assume "run env inputs payload v = Some v'" and "emitted v v' = pre @ (c, q') # post"
    and "is_step c" and "thrown q' = Some m'"
  then show "post = [(SetFailed m', quiet)]" by (rule run_step_failure)
qed

theorem writeProtected_contract_witness:
  "createFileWithSudo env_readonly ''/etc/ipsec.secrets'' ''s'' w0 =
     (Inl (Error ''The process /usr/bin/sudo failed with exit code 1''), w_denied) \<and>
   run env_readonly inputs0 ''{}'' w0 = Some w_failed \<and>
   emitted w0 w_failed =
     map (\<lambda>c. (c, fine []))
       (take 9 (cfg_calls ''203.0.113.5'' ''alice'' ''wonderland'' ''shared'')) @
     (Exec ''sudo'' [''mv'', ''/tmp/ipsec.secrets'', ''/etc/ipsec.secrets''], mv_denied) #
     [(SetFailed ''The process /usr/bin/sudo failed with exit code 1'', quiet)] \<and>
   is_step (Exec ''sudo'' [''mv'', ''/tmp/ipsec.secrets'', ''/etc/ipsec.secrets'']) \<and>
   thrown mv_denied = Some ''The process /usr/bin/sudo failed with exit code 1''"
proof -
  have trace: "emitted w0 w_failed =
     map (\<lambda>c. (c, fine []))
       (take 9 (cfg_calls ''203.0.113.5'' ''alice'' ''wonderland'' ''shared'')) @
     (Exec ''sudo'' [''mv'', ''/tmp/ipsec.secrets'', ''/etc/ipsec.secrets''], mv_denied) #
     [(SetFailed ''The process /usr/bin/sudo failed with exit code 1'', quiet)]"
    by (simp add: emitted_def w0_def w_failed_def)
  have step: "is_step (Exec ''sudo'' [''mv'', ''/tmp/ipsec.secrets'', ''/etc/ipsec.secrets''])"
    by simp
  have thrown: "thrown mv_denied = Some ''The process /usr/bin/sudo failed with exit code 1''"
    by (simp add: mv_denied_def failing_def)
  have "[(SetFailed ''The process /usr/bin/sudo failed with exit code 1'', quiet)] =
        [(SetFailed ''The process /usr/bin/sudo failed with exit code 1'', quiet)]"
    by (rule writeProtected_contract
               [THEN conjunct2, rule_format, OF env_readonly_run trace step thrown])
  with env_readonly_file env_readonly_run trace step thrown
  show ?thesis by simp
qed

text \<open>
  C9, as the code has it. The symbolic link is made by \<^verbatim>\<open>createConfigFiles\<close>, before
  \<^verbatim>\<open>startVPN\<close> is called. In every run, when any command of \<^verbatim>\<open>startVPN\<close> is issued (these
  are the calls of \<^verbatim>\<open>exec\<close> with a whole command line and no argument list: the two daemon
  starts, the status queries of the poller, the route commands), the \<^verbatim>\<open>ln -fs\<close> call has
  been issued before it, right after the successful \<^verbatim>\<open>chmod 600\<close> of the resolver
  artifact, and it is not issued again afterwards.
\<close>

theorem symlink_before_daemons:
  assumes "run env inputs payload w = Some w'"
    and "emitted w w' = pre @ (Exec cmd [], q) # post"
  shows "(\<exists>pre1 c l pre2.
            pre = pre1 @
                  (Exec ''sudo'' [''chmod'', ''600'', ''/etc/resolv-vpn.conf''], c) #
                  (Exec ''sudo'' [''ln'', ''-fs'', ''/etc/resolv-vpn.conf'', ''/etc/resolv.conf''], l) #
                  pre2 \<and>
            thrown c = None) \<and>
         list_all
           (\<lambda>ev. fst ev \<noteq> Exec ''sudo'' [''ln'', ''-fs'', ''/etc/resolv-vpn.conf'', ''/etc/resolv.conf''])
           post"
proof -
  let ?ev = "(Exec cmd [], q)"
  from run_shape [OF assms(1)] obtain r evs server username password psk where
    e: "emitted w w' = evs @ caught r"
    and t: "tried (cfg_calls server username password psk) server payload r evs"
    by blast
  let ?cs = "cfg_calls server username password psk"
  have not_caught: "?ev \<notin> set (caught r)"
    by (auto simp: caught_def split: sum.splits error.splits)
  have not_cfg: "?ev \<notin> set A" if "configured ?cs r1 A" for r1 :: "error + unit" and A
    using configured_cfg_calls [OF that cfg_calls_all, of "Exec cmd []" q] by auto
  from t consider
      "evs = []"
    | e0 where "configured ?cs (Inl e0) evs"
    | A B r2 where "configured ?cs (Inr ()) A" "started server r2 B"
        "case r2 of
           Inl e \<Rightarrow> evs = A @ B \<and> r = Inl e
         | Inr _ \<Rightarrow> evs = A @ B @ [(ConsoleLog (''The event payload: '' @ payload), quiet)] \<and>
                      r = Inr ()"
    unfolding tried_def by blast
  then show ?thesis
  proof cases
    case 1
    with e assms(2) not_caught have False
      by (metis append_Nil in_set_conv_decomp)
    then show ?thesis ..
  next
    case 2
    from not_cfg [OF 2] not_caught e assms(2) have False
      by (metis Un_iff in_set_conv_decomp set_append)
    then show ?thesis ..
  next
    case 3
    let ?T = "B @ (case r2 of Inl e \<Rightarrow> []
                   | Inr _ \<Rightarrow> [(ConsoleLog (''The event payload: '' @ payload), quiet)]) @
              caught r"
    from 3(3) e have all: "emitted w w' = A @ ?T" by (cases r2) auto
    from split_event_right [OF all [unfolded assms(2), symmetric] not_cfg [OF 3(1)]]
    obtain us where us: "pre = A @ us" "?T = us @ ?ev # post" by blast
    have no_ln: "fst ev \<noteq> ln_call" if "ev \<in> set ?T" for ev
    proof (cases "ev \<in> set B")
      case True
      then have "(fst ev, snd ev) \<in> set B" by simp
      from started_vpn_calls [OF 3(2) this] show ?thesis
        by (auto simp: ln_call_def)
    next
      case False
      with that have "(\<exists>m. fst ev = ConsoleLog m) \<or> (\<exists>m. fst ev = SetFailed m)"
        by (cases r2; cases r) (auto simp: caught_def split: error.splits)
      then show ?thesis by (auto simp: ln_call_def)
    qed
    have "set post \<subseteq> set ?T" using us(2) by auto
    with no_ln have post: "list_all (\<lambda>ev. fst ev \<noteq> ln_call) post"
      by (auto simp: list_all_iff)
    from 3(1) obtain written rest where
      a: "A = written @ rest" "list_all2 ok ?cs written" "linked rest"
      unfolding configured_def by auto
    from cfg_calls_last [of server username password psk] obtain cs0 where
      cs0: "?cs = cs0 @ [Exec ''sudo'' [''chmod'', ''600'', ''/etc/resolv-vpn.conf'']]"
      by blast
    from a(2) obtain w1 c where
      w: "written = w1 @ [(Exec ''sudo'' [''chmod'', ''600'', ''/etc/resolv-vpn.conf''], c)]"
         "thrown c = None"
      unfolding cs0 by (auto simp: list_all2_append1 list_all2_Cons1 ok_def)
    from a(3) obtain l rest' where l: "rest = (ln_call, l) # rest'"
      unfolding linked_def by blast
    have "pre = w1 @ (Exec ''sudo'' [''chmod'', ''600'', ''/etc/resolv-vpn.conf''], c) #
                  (ln_call, l) # (rest' @ us)"
      using us(1) a(1) w(1) l by simp
    with w(2) post show ?thesis
      unfolding ln_call_def by blast
  qed
qed

theorem symlink_before_daemons_witness:
  "run env_no_ipsec inputs0 ''{}'' w0 = Some w_no_ipsec \<and>
   emitted w0 w_no_ipsec =
     (map (\<lambda>c. (c, fine [])) (cfg_calls ''203.0.113.5'' ''alice'' ''wonderland'' ''shared'') @
      [(ln_call, fine []),
       (Info ''All configuration files created successfully.'', quiet),
       (Info ''Starting the VPN connection...'', quiet)]) @
     (Exec ''sudo ipsec start'' [], failing ''The process /usr/bin/sudo failed with exit code 1'') #
     [(SetFailed ''The process /usr/bin/sudo failed with exit code 1'', quiet)] \<and>
   list_all
     (\<lambda>ev. fst ev \<noteq> Exec ''sudo'' [''ln'', ''-fs'', ''/etc/resolv-vpn.conf'', ''/etc/resolv.conf''])
     [(SetFailed ''The process /usr/bin/sudo failed with exit code 1'', quiet)]"
proof -
  have trace: "emitted w0 w_no_ipsec =
     (map (\<lambda>c. (c, fine [])) (cfg_calls ''203.0.113.5'' ''alice'' ''wonderland'' ''shared'') @
      [(ln_call, fine []),
       (Info ''All configuration files created successfully.'', quiet),
       (Info ''Starting the VPN connection...'', quiet)]) @
     (Exec ''sudo ipsec start'' [], failing ''The process /usr/bin/sudo failed with exit code 1'') #
     [(SetFailed ''The process /usr/bin/sudo failed with exit code 1'', quiet)]"
    by (simp add: emitted_def w0_def w_no_ipsec_def)
  from symlink_before_daemons [OF env_no_ipsec_run trace] env_no_ipsec_run trace
  show ?thesis by (intro conjI) blast+
qed

text \<open>
  A run in which the IPsec daemon cannot even be started: the poller never runs and the run
  is reported as failed, yet the symbolic link has been made.
\<close>

theorem symlink_without_tunnel:
  "run env_no_ipsec inputs0 ''{}'' w0 = Some w_no_ipsec \<and>
   (ln_call, fine []) \<in> set (trace w_no_ipsec) \<and>
   thrown (fine []) = None \<and>
   \<not> saw_ready (trace w_no_ipsec) \<and>
   list_all (\<lambda>ev. \<not> poller_call (fst ev)) (trace w_no_ipsec) \<and>
   last (trace w_no_ipsec) =
     (SetFailed ''The process /usr/bin/sudo failed with exit code 1'', quiet)"
proof -
  have "(ln_call, fine []) \<in> set (trace w_no_ipsec)"
    and "thrown (fine []) = None"
    and "last (trace w_no_ipsec) =
           (SetFailed ''The process /usr/bin/sudo failed with exit code 1'', quiet)"
    by (simp_all add: w_no_ipsec_def fine_def)
  moreover have calls: "list_all (\<lambda>ev. \<not> poller_call (fst ev)) (trace w_no_ipsec)"
    by (simp add: w_no_ipsec_def cfg_calls_def files_calls_eq ln_call_def)
  moreover have "\<not> saw_ready (trace w_no_ipsec)"
    by (simp add: w_no_ipsec_def cfg_calls_def files_calls_eq ln_call_def ready_pair_def ok_def)
  ultimately show ?thesis using env_no_ipsec_run by (intro conjI)
qed

end
